theory Spec2Isabelle
  imports Complex_Main "HOL-Library.Word" "HOL-Library.Multiset"
begin

section \<open>JavaScript strings\<close>

text \<open>
  A JavaScript string is a sequence of UTF-16 code units, and \<open>length\<close>, \<open>includes\<close>,
  \<open>split\<close>, \<open>substring\<close> and the regular expressions of the sources all work on code
  units. A string is therefore a list of 16-bit words; \<open>js\<close> turns a literal of the
  theory into such a list.
\<close>

type_synonym jschar = "16 word"
type_synonym jsstring = "jschar list"

definition js :: "string \<Rightarrow> jsstring" where
  "js s = map of_char s"

text \<open>\<open>s.startsWith(p)\<close>\<close>

fun startsWith :: "jsstring \<Rightarrow> jsstring \<Rightarrow> bool" where
  "startsWith s [] = True"
| "startsWith [] (p # ps) = False"
| "startsWith (c # cs) (p # ps) = (c = p \<and> startsWith cs ps)"

text \<open>\<open>s.includes(p)\<close>: \<open>p\<close> occurs at some position of \<open>s\<close>.\<close>

fun includes_js :: "jsstring \<Rightarrow> jsstring \<Rightarrow> bool" where
  "includes_js [] p = (p = [])"
| "includes_js (c # cs) p = (startsWith (c # cs) p \<or> includes_js cs p)"

text \<open>
  \<open>s.split(sep)\<close> for a string separator. The scan of ECMAScript goes left to right;
  at a position where \<open>sep\<close> matches, the segment collected so far is emitted and the scan
  resumes behind the match. \<open>cur\<close> is the segment collected so far. With the empty
  separator the result is the list of the code units.
\<close>

fun split_from :: "jsstring \<Rightarrow> jsstring \<Rightarrow> jsstring \<Rightarrow> jsstring list" where
  "split_from sep cur [] = [cur]"
| "split_from sep cur (c # cs) =
     (if startsWith (c # cs) sep
      then cur # split_from sep [] (drop (length sep - 1) cs)
      else split_from sep (cur @ [c]) cs)"

definition split :: "jsstring \<Rightarrow> jsstring \<Rightarrow> jsstring list" where
  "split s sep = (if sep = [] then map (\<lambda>c. [c]) s else split_from sep [] s)"

text \<open>
  \<open>s.trim()\<close> strips the WhiteSpace and LineTerminator code units of ECMAScript from
  both ends: TAB, LF, VT, FF, CR, space, NBSP, the Unicode space separators, LS, PS and
  the byte order mark.
\<close>

definition isWhiteSpace :: "jschar \<Rightarrow> bool" where
  "isWhiteSpace c \<longleftrightarrow>
     (0x09 \<le> c \<and> c \<le> 0x0D) \<or> c = 0x20 \<or> c = 0xA0 \<or> c = 0x1680 \<or>
     (0x2000 \<le> c \<and> c \<le> 0x200A) \<or> c = 0x2028 \<or> c = 0x2029 \<or> c = 0x202F \<or>
     c = 0x205F \<or> c = 0x3000 \<or> c = 0xFEFF"

definition trim :: "jsstring \<Rightarrow> jsstring" where
  "trim s = rev (dropWhile isWhiteSpace (rev (dropWhile isWhiteSpace s)))"

text \<open>
  \<open>s.replace(pat, rep)\<close> with a string pattern replaces the first occurrence only.
  The sources only pass replacement strings without \<open>$\<close>, so the replacement is
  inserted literally.
\<close>

fun replace :: "jsstring \<Rightarrow> jsstring \<Rightarrow> jsstring \<Rightarrow> jsstring" where
  "replace [] pat rep = (if pat = [] then rep else [])"
| "replace (c # cs) pat rep =
     (if startsWith (c # cs) pat then rep @ drop (length pat) (c # cs)
      else c # replace cs pat rep)"

text \<open>
  \<open>a?.trim() || d\<close> where \<open>a\<close> is an array element that may be \<open>undefined\<close>:
  the default is taken when the element is missing or its trimmed text is the empty
  string (which is falsy).
\<close>

fun trimOr :: "jsstring option \<Rightarrow> jsstring \<Rightarrow> jsstring" where
  "trimOr None d = d"
| "trimOr (Some s) d = (if trim s = [] then d else trim s)"

text \<open>\<open>parts[i]\<close>: \<open>undefined\<close> beyond the end of the array.\<close>

definition elem_at :: "'a list \<Rightarrow> nat \<Rightarrow> 'a option" where
  "elem_at xs i = (if i < length xs then Some (xs ! i) else None)"

text \<open>\<open>xs.join(sep)\<close>\<close>

fun join :: "jsstring list \<Rightarrow> jsstring \<Rightarrow> jsstring" where
  "join [] sep = []"
| "join [x] sep = x"
| "join (x # y # ys) sep = x @ sep @ join (y # ys) sep"

text \<open>
  \<open>s.toLowerCase()\<close> is the lower-casing of the JavaScript engine, which follows the
  Unicode case mappings of the engine's Unicode version: it may change the length of a
  string and it is not part of the sources. Every function below that calls it takes it
  as its first parameter, named \<open>toLowerCase\<close>; what is proved about such a function
  holds for every lower-casing.

  \<open>lowerLatin1\<close> is the one instance used in the examples. On a string of code units up
  to U+00FF it is what the engine computes: the ASCII capitals and the Latin-1 capitals
  (U+00C0 to U+00DE without the multiplication sign U+00D7) move up by 32, everything
  else stays.
\<close>

type_synonym lowercasing = "jsstring \<Rightarrow> jsstring"

definition lowerChar :: "jschar \<Rightarrow> jschar" where
  "lowerChar c =
     (if (0x41 \<le> c \<and> c \<le> 0x5A) \<or> (0xC0 \<le> c \<and> c \<le> 0xDE \<and> c \<noteq> 0xD7)
      then c + 0x20 else c)"

definition lowerLatin1 :: lowercasing where
  "lowerLatin1 s = map lowerChar s"

text \<open>\<open>[...new Set(xs)]\<close>: the distinct elements in the order of their first occurrence.\<close>

definition uniq :: "'a list \<Rightarrow> 'a list" where
  "uniq xs = rev (remdups (rev xs))"

section \<open>The data model (base-agent.ts)\<close>

text \<open>A thrown \<open>Error\<close> is a value carrying its message.\<close>

datatype error = Error (message: jsstring)

record FileInfo =
  path :: jsstring
  content :: jsstring
  language :: jsstring
  size_f :: nat

record Metadata =
  filesAnalyzed :: nat
  codeLanguages :: "jsstring list"
  frameworks :: "jsstring list"
  architecture :: jsstring

record AnalysisResult =
  technicalSpec :: jsstring
  functionalSpec :: jsstring
  metadata :: Metadata

section \<open>The coordinator (agents/coordinator-agent.ts)\<close>

record ProjectInfo =
  name :: jsstring
  description :: "jsstring option"

text \<open>
  \<open>DocumentationOptions\<close>: a missing \<open>sendEmail\<close> is falsy like \<open>false\<close>; a missing
  recipient is \<open>None\<close>.
\<close>

record DocumentationOptions =
  sendEmail :: bool
  recipientEmail :: "jsstring option"

text \<open>
  The text-generation and delivery capabilities are outside the coordinator. Each is a
  function that returns its text or throws. \<open>codeAnalyzer\<close>, \<open>docAnalyzer\<close> and
  \<open>specGenerator\<close> are the \<open>analyze\<close> methods of the three agents, \<open>generateText\<close> is
  \<open>AIClient.generateText\<close> applied to a system prompt and a user prompt, and \<open>sendMail\<close>
  is the body of the \<open>try\<close> block of \<open>EmailAgent.sendDocumentation\<close> (compose the
  message, build the attachments, post it).
\<close>

record Capabilities =
  codeAnalyzer :: "FileInfo list \<Rightarrow> error + jsstring"
  docAnalyzer :: "FileInfo list \<Rightarrow> error + jsstring"
  generateText :: "jsstring \<Rightarrow> jsstring \<Rightarrow> error + jsstring"
  specGenerator :: "jsstring \<Rightarrow> jsstring \<Rightarrow> ProjectInfo \<Rightarrow> error + jsstring"
  sendMail :: "jsstring \<Rightarrow> jsstring \<Rightarrow> jsstring \<Rightarrow> jsstring \<Rightarrow> Metadata \<Rightarrow> error + unit"

text \<open>
  \<open>EmailAgent.sendDocumentation\<close>: every failure of the body is caught and turned into
  the result \<open>false\<close>; the method never throws.
\<close>

definition sendDocumentation ::
  "Capabilities \<Rightarrow> jsstring \<Rightarrow> jsstring \<Rightarrow> jsstring \<Rightarrow> jsstring \<Rightarrow> Metadata \<Rightarrow> bool" where
  "sendDocumentation caps recipient projectName technical functional meta =
     (case sendMail caps recipient projectName technical functional meta of
        Inl e \<Rightarrow> False
      | Inr u \<Rightarrow> True)"

definition specMarker :: jsstring where
  "specMarker = js ''<!-- FUNCTIONAL_SPEC_START -->''"

definition docLabel :: jsstring where
  "docLabel = js ''DOCUMENTATION ANALYSIS:''"

definition codeLabel :: jsstring where
  "codeLabel = js ''CODE ANALYSIS:''"

definition generateFallbackFunctionalSpec :: jsstring where
  \<open>generateFallbackFunctionalSpec = js ''<!DOCTYPE html>
<html>
<head>
    <title>Functional Specification</title>
    <style>
        body { font-family: Arial, sans-serif; line-height: 1.6; margin: 20px; }
        h1 { color: #2c3e50; border-bottom: 2px solid #3498db; padding-bottom: 10px; }
        h2 { color: #34495e; margin-top: 30px; }
        .requirement { background: #ecf0f1; padding: 15px; border-left: 4px solid #3498db; margin: 10px 0; }
    </style>
</head>
<body>
    <h1>Functional Specification</h1>
    <h2>Overview</h2>
    <p>This document outlines the functional requirements and specifications for the analyzed system.</p>

    <div class="requirement">
        <h3>Core Functionality</h3>
        <p>The system provides core functionality based on the analyzed codebase.</p>
    </div>

    <h2>Requirements</h2>
    <p>Detailed functional requirements based on code analysis.</p>
</body>
</html>''\<close>

text \<open>\<open>extractFrameworks\<close>: keyword search over the lower-cased contents, joined by spaces.\<close>

definition frameworkTable :: "(jsstring \<times> jsstring) list" where
  "frameworkTable =
     [(js ''react'', js ''React''), (js ''angular'', js ''Angular''), (js ''vue'', js ''Vue.js''),
      (js ''express'', js ''Express.js''), (js ''django'', js ''Django''),
      (js ''flask'', js ''Flask''), (js ''spring'', js ''Spring''), (js ''.net'', js ''.NET''),
      (js ''fastapi'', js ''FastAPI''), (js ''next'', js ''Next.js''), (js ''nuxt'', js ''Nuxt.js'')]"

definition extractFrameworks :: "lowercasing \<Rightarrow> FileInfo list \<Rightarrow> jsstring list" where
  "extractFrameworks toLowerCase files =
     (let text = toLowerCase (join (map content files) (js '' ''))
      in uniq (map snd (filter (\<lambda>(k, l). includes_js text k) frameworkTable)))"

definition parseSpecifications ::
  "lowercasing \<Rightarrow> jsstring \<Rightarrow> FileInfo list \<Rightarrow> AnalysisResult" where
  "parseSpecifications toLowerCase specifications files =
     (let parts = split specifications specMarker;
          technical = trimOr (elem_at parts 0) specifications;
          functional = trimOr (elem_at parts 1) generateFallbackFunctionalSpec;
          languages = uniq (filter (\<lambda>l. l \<noteq> js ''unknown'') (map language files))
      in \<lparr> technicalSpec = technical, functionalSpec = functional,
           metadata = \<lparr> filesAnalyzed = length files, codeLanguages = languages,
                        frameworks = extractFrameworks toLowerCase files,
                        architecture = js ''Multi-tier'' \<rparr> \<rparr>)"

text \<open>
  The prompts of \<open>reviewAnalysis\<close>; the two stage outputs are spliced into the user
  prompt.
\<close>

definition reviewSystemPrompt :: jsstring where
  "reviewSystemPrompt = js ''You are a senior technical lead responsible for reviewing and enhancing technical analysis. 
    Your goal is to ensure comprehensive, accurate, and insightful analysis that bridges technical implementation with business requirements.''"

definition reviewPrompt :: "jsstring \<Rightarrow> jsstring \<Rightarrow> jsstring" where
  "reviewPrompt codeIn docIn =
     js ''As a senior technical lead, review and enhance the following analysis:

CODE ANALYSIS:
'' @ codeIn @ js ''

DOCUMENTATION ANALYSIS:
'' @ docIn @ js ''

Please:
1. Identify any gaps or inconsistencies
2. Synthesize the information from both analyses
3. Provide additional insights that might have been missed
4. Ensure the analysis is comprehensive and accurate

Return the enhanced analysis maintaining the same structure but with improved insights.''"

record Reviewed =
  codeAnalysis :: jsstring
  docAnalysis :: jsstring

definition reviewAnalysis :: "Capabilities \<Rightarrow> jsstring \<Rightarrow> jsstring \<Rightarrow> error + Reviewed" where
  "reviewAnalysis caps codeIn docIn =
     (case generateText caps reviewSystemPrompt (reviewPrompt codeIn docIn) of
        Inl e \<Rightarrow> Inl e
      | Inr enhancedAnalysis \<Rightarrow>
          (let parts = split enhancedAnalysis docLabel
           in Inr \<lparr> codeAnalysis =
                      trimOr (map_option (\<lambda>p. replace p codeLabel []) (elem_at parts 0)) codeIn,
                    docAnalysis = trimOr (elem_at parts 1) docIn \<rparr>))"

text \<open>
  The progress callback is optional (\<open>onProgress?.(stage, progress)\<close>). A callback
  changes the state of its owner; \<open>notify\<close> is the optional call. Percentages are
  JavaScript numbers; the model computes them as rationals. (The only arithmetic on them
  is \<open>10 + progress * 0.9\<close> at the waypoints 15, 30, 50, 70, 85, 95 and 100, where the
  double-precision results are the rational ones: 23.5, 37, 55, 73, 86.5, 95.5, 100.)
\<close>

type_synonym 'st callback = "jsstring \<Rightarrow> rat \<Rightarrow> 'st \<Rightarrow> 'st"

definition notify :: "'st callback option \<Rightarrow> jsstring \<Rightarrow> rat \<Rightarrow> 'st \<Rightarrow> 'st" where
  "notify onProgress stage progress st =
     (case onProgress of None \<Rightarrow> st | Some f \<Rightarrow> f stage progress st)"

text \<open>\<open>options.sendEmail && options.recipientEmail\<close>: the recipient must be a non-empty string.\<close>

definition deliveryRequested :: "DocumentationOptions \<Rightarrow> bool" where
  "deliveryRequested options \<longleftrightarrow>
     sendEmail options \<and> (case recipientEmail options of None \<Rightarrow> False | Some r \<Rightarrow> r \<noteq> [])"

text \<open>
  \<open>generateDocumentation\<close> returns the state of the callback's owner after the run and
  either the thrown error or the result. The \<open>catch\<close> block logs and rethrows.
\<close>

definition generateDocumentation ::
  "lowercasing \<Rightarrow> Capabilities \<Rightarrow> FileInfo list \<Rightarrow> ProjectInfo \<Rightarrow> DocumentationOptions \<Rightarrow>
   'st callback option \<Rightarrow> 'st \<Rightarrow> 'st \<times> (error + AnalysisResult)" where
  "generateDocumentation toLowerCase caps files projectInfo options onProgress st0 =
     (let st1 = notify onProgress (js ''Analyzing code structure and architecture...'') 15 st0
      in case codeAnalyzer caps files of
        Inl e \<Rightarrow> (st1, Inl e)
      | Inr codeOut \<Rightarrow>
     (let st2 = notify onProgress (js ''Analyzing existing documentation...'') 30 st1
      in case docAnalyzer caps files of
        Inl e \<Rightarrow> (st2, Inl e)
      | Inr docOut \<Rightarrow>
     (let st3 = notify onProgress (js ''Reviewing and synthesizing analysis...'') 50 st2
      in case reviewAnalysis caps codeOut docOut of
        Inl e \<Rightarrow> (st3, Inl e)
      | Inr reviewed \<Rightarrow>
     (let st4 = notify onProgress (js ''Generating technical specifications...'') 70 st3
      in case specGenerator caps (codeAnalysis reviewed) (docAnalysis reviewed) projectInfo of
        Inl e \<Rightarrow> (st4, Inl e)
      | Inr specifications \<Rightarrow>
     (let st5 = notify onProgress (js ''Finalizing documentation...'') 85 st4;
          result = parseSpecifications toLowerCase specifications files;
          st6 = (if deliveryRequested options
                 then (let st = notify onProgress (js ''Sending documentation via email...'') 95 st5;
                           delivered = sendDocumentation caps (the (recipientEmail options))
                                         (name projectInfo) (technicalSpec result)
                                         (functionalSpec result) (metadata result)
                       in st)
                 else st5)
      in (notify onProgress (js ''Documentation generation complete!'') 100 st6, Inr result))))))"

section \<open>The repository analyzer (repository-analyzer.ts)\<close>

subsection \<open>Paths (Node's \<open>path\<close> module, POSIX flavour)\<close>

definition slash :: jschar where "slash = 0x2F"
definition dot :: jschar where "dot = 0x2E"

text \<open>\<open>path.basename(p)\<close>: the last segment, trailing separators ignored.\<close>

definition basename :: "jsstring \<Rightarrow> jsstring" where
  "basename p = rev (takeWhile (\<lambda>c. c \<noteq> slash) (dropWhile (\<lambda>c. c = slash) (rev p)))"

text \<open>
  \<open>path.extname(p)\<close>: from the last dot of the last segment to its end; empty when the
  segment has no dot, when its only dot is its first character, and for the segment
  \<open>..\<close>.
\<close>

definition extname :: "jsstring \<Rightarrow> jsstring" where
  "extname p =
     (let b = basename p;
          ext = rev (takeWhile (\<lambda>c. c \<noteq> dot) (rev b));
          pre = take (length b - length ext - 1) b
      in if dot \<notin> set b \<or> pre = [] \<or> b = [dot, dot] then [] else dot # ext)"

subsection \<open>Filters\<close>

definition supportedExtensions :: "jsstring list" where
  "supportedExtensions = map js
     [''.js'', ''.ts'', ''.jsx'', ''.tsx'', ''.py'', ''.java'', ''.cs'', ''.cpp'', ''.c'', ''.h'',
      ''.php'', ''.rb'', ''.go'', ''.rs'', ''.swift'', ''.kt'', ''.scala'', ''.clj'', ''.hs'',
      ''.md'', ''.txt'', ''.json'', ''.yml'', ''.yaml'', ''.xml'', ''.html'', ''.css'', ''.scss'',
      ''.sql'', ''.sh'', ''.bat'', ''.ps1'', ''.dockerfile'', ''.tf'']"

definition importantFiles :: "jsstring list" where
  "importantFiles = map js
     [''readme'', ''license'', ''changelog'', ''contributing'', ''dockerfile'',
      ''makefile'', ''rakefile'', ''gemfile'', ''package.json'', ''composer.json'',
      ''requirements.txt'', ''setup.py'', ''pom.xml'', ''build.gradle'']"

definition skipPatterns :: "jsstring list" where
  "skipPatterns = map js
     [''node_modules'', ''.git'', ''.vscode'', ''.idea'', ''dist'', ''build'', ''target'',
      ''bin'', ''obj'', ''__pycache__'', ''.pytest_cache'', ''coverage'', ''.nyc_output'',
      ''logs'', ''tmp'', ''temp'', ''.DS_Store'', ''Thumbs.db'']"

definition shouldSkipPath :: "jsstring \<Rightarrow> bool" where
  "shouldSkipPath relativePath =
     list_ex (\<lambda>pattern. includes_js relativePath pattern \<or> startsWith relativePath (js ''.''))
       skipPatterns"

definition shouldIncludeFile :: "lowercasing \<Rightarrow> jsstring \<Rightarrow> nat \<Rightarrow> bool" where
  "shouldIncludeFile toLowerCase filename sz =
     (let ext = toLowerCase (extname filename)
      in if sz > 1024 * 1024 then False
         else if ext \<in> set supportedExtensions then True
         else list_ex (\<lambda>important. includes_js (toLowerCase filename) important) importantFiles)"

definition shouldIncludeGithubFile :: "lowercasing \<Rightarrow> jsstring \<Rightarrow> nat \<Rightarrow> bool" where
  "shouldIncludeGithubFile toLowerCase filePath sz =
     (if sz > 1024 * 1024 then False
      else if shouldSkipPath filePath then False
      else (let filename = basename filePath;
                ext = toLowerCase (extname filename)
            in if ext \<in> set supportedExtensions then True
               else list_ex (\<lambda>important. includes_js (toLowerCase filename) important)
                      importantFiles))"

definition languageMap :: "(jsstring \<times> jsstring) list" where
  "languageMap = map (\<lambda>(k, v). (js k, js v))
     [(''.js'', ''javascript''), (''.jsx'', ''javascript''), (''.ts'', ''typescript''),
      (''.tsx'', ''typescript''), (''.py'', ''python''), (''.java'', ''java''),
      (''.cs'', ''csharp''), (''.cpp'', ''cpp''), (''.c'', ''c''), (''.h'', ''c''),
      (''.php'', ''php''), (''.rb'', ''ruby''), (''.go'', ''go''), (''.rs'', ''rust''),
      (''.swift'', ''swift''), (''.kt'', ''kotlin''), (''.scala'', ''scala''),
      (''.clj'', ''clojure''), (''.hs'', ''haskell''), (''.md'', ''markdown''),
      (''.html'', ''html''), (''.css'', ''css''), (''.scss'', ''scss''), (''.sql'', ''sql''),
      (''.json'', ''json''), (''.yml'', ''yaml''), (''.yaml'', ''yaml''), (''.xml'', ''xml''),
      (''.sh'', ''shell''), (''.bat'', ''batch''), (''.ps1'', ''powershell'')]"

definition detectLanguage :: "lowercasing \<Rightarrow> jsstring \<Rightarrow> jsstring" where
  "detectLanguage toLowerCase filename =
     (case map_of languageMap (toLowerCase (extname filename)) of
        Some l \<Rightarrow> l
      | None \<Rightarrow> js ''unknown'')"

subsection \<open>Binary detection and truncation\<close>

text \<open>The class \<open>[\x00-\x08\x0E-\x1F\x7F]\<close>.\<close>

definition isControl :: "jschar \<Rightarrow> bool" where
  "isControl c \<longleftrightarrow> c \<le> 0x08 \<or> (0x0E \<le> c \<and> c \<le> 0x1F) \<or> c = 0x7F"

text \<open>
  \<open>match\<close> yields \<open>null\<close> when nothing matches. The test
  \<open>nonPrintableChars.length > content.length * 0.1\<close> compares an integer \<open>n\<close> with a
  tenth of an integer \<open>l\<close>, which is \<open>10 * n > l\<close>. (In double precision the product
  \<open>l * 0.1\<close> lies strictly between \<open>\<lfloor>l/10\<rfloor>\<close> and \<open>\<lfloor>l/10\<rfloor> + 1\<close>
  when 10 does not divide \<open>l\<close>, and is at least \<open>l/10\<close> and below \<open>l/10 + 1\<close> when it
  does, for every length a string can have; the comparison with the integer \<open>n\<close> has
  the same outcome.)
\<close>

definition isBinaryContent :: "jsstring \<Rightarrow> bool" where
  "isBinaryContent text =
     (let nonPrintableChars = filter isControl text
      in nonPrintableChars \<noteq> [] \<and> 10 * length nonPrintableChars > length text)"

definition truncationMarker :: jsstring where
  "truncationMarker = 0x0A # js ''... [truncated]''"

text \<open>
  \<open>readFileContent\<close>: the argument is the outcome of \<open>fs.readFile(filePath, 'utf-8')\<close>,
  the decoded text or the thrown error.
\<close>

definition readFileContent :: "error + jsstring \<Rightarrow> jsstring option" where
  "readFileContent rd =
     (case rd of
        Inl e \<Rightarrow> None
      | Inr text \<Rightarrow>
          if length text > 50000 then Some (take 50000 text @ truncationMarker)
          else if isBinaryContent text then None
          else Some text)"

subsection \<open>Ranking\<close>

definition codeExts :: "jsstring list" where
  "codeExts = map js [''.js'', ''.ts'', ''.py'', ''.java'', ''.cs'', ''.cpp'', ''.go'', ''.rs'']"

definition getFileImportanceScore :: "lowercasing \<Rightarrow> jsstring \<Rightarrow> int" where
  "getFileImportanceScore toLowerCase filePath =
     (let filename = toLowerCase (basename filePath)
      in if includes_js filename (js ''readme'') then 100
         else if includes_js filename (js ''package.json'') then 95
         else if includes_js filename (js ''dockerfile'') then 90
         else if includes_js filename (js ''main.'') \<or> includes_js filename (js ''index.'') then 85
         else if includes_js filename (js ''app.'') \<or> includes_js filename (js ''server.'') then 80
         else if extname filename = js ''.md'' then 70
         else if includes_js filename (js ''config'') then 65
         else if includes_js filename (js ''setup'') \<or> includes_js filename (js ''install'') then 60
         else if extname filename \<in> set codeExts then 50
         else 30)"

text \<open>
  \<open>Array.prototype.sort(cmp)\<close> is a stable sort (ECMAScript 2019): with a comparator
  that orders by a key it returns the elements in ascending order of \<open>cmp\<close>, elements
  that compare equal in their original order. The model is the stable insertion sort:
  \<open>x\<close> goes in front of the first element it does not have to follow.
\<close>

fun insert_by :: "('a \<Rightarrow> 'a \<Rightarrow> int) \<Rightarrow> 'a \<Rightarrow> 'a list \<Rightarrow> 'a list" where
  "insert_by cmp x [] = [x]"
| "insert_by cmp x (y # ys) = (if cmp x y \<le> 0 then x # y # ys else y # insert_by cmp x ys)"

definition sort_by :: "('a \<Rightarrow> 'a \<Rightarrow> int) \<Rightarrow> 'a list \<Rightarrow> 'a list" where
  "sort_by cmp xs = foldr (insert_by cmp) xs []"

text \<open>The comparator of both ingestion paths: \<open>(a, b) => bScore - aScore\<close>.\<close>

definition byImportance :: "lowercasing \<Rightarrow> FileInfo \<Rightarrow> FileInfo \<Rightarrow> int" where
  "byImportance toLowerCase a b =
     (let aScore = getFileImportanceScore toLowerCase (path a);
          bScore = getFileImportanceScore toLowerCase (path b)
      in bScore - aScore)"

subsection \<open>Local ingestion\<close>

text \<open>
  What the walker sees of the file system: for a name in a directory, \<open>fs.stat\<close> either
  throws or reports a regular file (with its size; reading it gives text or throws), a
  directory (whose listing is its entries in the order of \<open>fs.readdir\<close>, or throws) or
  something else.
\<close>

datatype fsnode =
    File nat "error + jsstring"
  | Dir "(jsstring \<times> fsnode) list"
  | DirUnreadable
  | Special
  | StatError

text \<open>
  \<open>path.relative(basePath, path.join(currentPath, item))\<close> for an entry \<open>item\<close> of the
  directory whose own relative path is \<open>cur\<close> (empty for the root).
\<close>

definition relativeOf :: "jsstring \<Rightarrow> jsstring \<Rightarrow> jsstring" where
  "relativeOf cur item = (if cur = [] then item else cur @ [slash] @ item)"

text \<open>
  \<open>walkDirectory\<close> threads the array \<open>files\<close> through the traversal. \<open>walkItems\<close> is
  the \<open>for\<close> loop over the entries. An exception of \<open>fs.stat\<close> leaves the loop (the
  \<open>try\<close> block encloses it) and keeps what was pushed so far; \<open>fs.readdir\<close> failing
  leaves \<open>files\<close> as it is.
\<close>

fun walkDirectory ::
    "lowercasing \<Rightarrow> jsstring \<Rightarrow> fsnode \<Rightarrow> FileInfo list \<Rightarrow> nat \<Rightarrow> FileInfo list"
  and walkItems ::
    "lowercasing \<Rightarrow> jsstring \<Rightarrow> (jsstring \<times> fsnode) list \<Rightarrow> FileInfo list \<Rightarrow> nat \<Rightarrow>
     FileInfo list"
where
  "walkDirectory toLowerCase cur node files depth =
     (if depth > 10 then files
      else case node of
             Dir items \<Rightarrow> walkItems toLowerCase cur items files depth
           | _ \<Rightarrow> files)"
| "walkItems toLowerCase cur [] files depth = files"
| "walkItems toLowerCase cur ((item, node) # rest) files depth =
     (let relativePath = relativeOf cur item
      in if shouldSkipPath relativePath then walkItems toLowerCase cur rest files depth
         else case node of
                StatError \<Rightarrow> files
              | Dir items \<Rightarrow>
                  walkItems toLowerCase cur rest
                    (walkDirectory toLowerCase relativePath node files (depth + 1)) depth
              | DirUnreadable \<Rightarrow>
                  walkItems toLowerCase cur rest
                    (walkDirectory toLowerCase relativePath node files (depth + 1)) depth
              | File sz rd \<Rightarrow>
                  if shouldIncludeFile toLowerCase item sz
                  then (case readFileContent rd of
                          Some text \<Rightarrow>
                            walkItems toLowerCase cur rest
                              (files @ [\<lparr> path = relativePath, content = text,
                                          language = detectLanguage toLowerCase item, size_f = sz \<rparr>])
                              depth
                        | None \<Rightarrow> walkItems toLowerCase cur rest files depth)
                  else walkItems toLowerCase cur rest files depth
              | Special \<Rightarrow> walkItems toLowerCase cur rest files depth)"

definition analyzeLocalFolder :: "lowercasing \<Rightarrow> fsnode \<Rightarrow> FileInfo list" where
  "analyzeLocalFolder toLowerCase folder =
     sort_by (byImportance toLowerCase) (walkDirectory toLowerCase [] folder [] 0)"

subsection \<open>Remote ingestion\<close>

text \<open>
  A call of \<open>fetch\<close> throws or gives a response with a status, a status text and a
  body; \<open>response.ok\<close> is true for the statuses 200 to 299. The body is what
  \<open>response.json()\<close> yields (for the tree listing \<open>Inl\<close> when it throws or has no usable
  \<open>tree\<close> array).
\<close>

datatype 'a fetched = NetworkError error | Response nat jsstring 'a

definition ok :: "nat \<Rightarrow> bool" where
  "ok status \<longleftrightarrow> 200 \<le> status \<and> status \<le> 299"

record TreeItem =
  item_type :: jsstring
  item_path :: jsstring
  item_size :: "nat option"
  item_sha :: jsstring

text \<open>
  A blob body: its \<open>encoding\<close> field and, for a base64 payload, the text
  \<open>Buffer.from(data.content, 'base64').toString('utf-8')\<close>.
\<close>

record BlobData =
  encoding :: jsstring
  decoded :: jsstring

text \<open>
  The network, as the analyzer uses it: a request is a URL and the optional
  \<open>Authorization\<close> header.
\<close>

record Network =
  fetchTree :: "jsstring \<Rightarrow> jsstring option \<Rightarrow> (error + TreeItem list) fetched"
  fetchBlob :: "jsstring \<Rightarrow> jsstring option \<Rightarrow> (BlobData option) fetched"

definition authorization :: "jsstring option \<Rightarrow> jsstring option" where
  "authorization pat =
     (case pat of None \<Rightarrow> None
      | Some p \<Rightarrow> if p = [] then None else Some (js ''token '' @ p))"

text \<open>Template interpolation of a number that is a non-negative integer: its decimal digits.\<close>

fun numToString :: "nat \<Rightarrow> jsstring" where
  "numToString n =
     (if n < 10 then [0x30 + of_nat n]
      else numToString (n div 10) @ [0x30 + of_nat (n mod 10)])"

declare numToString.simps [simp del]

text \<open>The two request URLs, as the template literals build them.\<close>

definition treeUrlOf :: "jsstring \<Rightarrow> jsstring \<Rightarrow> jsstring" where
  "treeUrlOf owner repo =
     js ''https://api.github.com/repos/'' @ owner @ js ''/'' @ repo
       @ js ''/git/trees/HEAD?recursive=1''"

definition contentUrlOf :: "jsstring \<Rightarrow> jsstring \<Rightarrow> jsstring \<Rightarrow> jsstring" where
  "contentUrlOf owner repo sha =
     js ''https://api.github.com/repos/'' @ owner @ js ''/'' @ repo @ js ''/git/blobs/'' @ sha"

text \<open>
  \<open>fetchGithubFileContent\<close>: every failure is logged and gives \<open>null\<close>. A body that
  \<open>response.json()\<close> cannot produce is \<open>None\<close>.
\<close>

definition fetchGithubFileContent ::
  "Network \<Rightarrow> jsstring \<Rightarrow> jsstring \<Rightarrow> jsstring \<Rightarrow> jsstring option \<Rightarrow> jsstring option" where
  "fetchGithubFileContent net owner repo sha pat =
     (let contentUrl = contentUrlOf owner repo sha
      in case fetchBlob net contentUrl (authorization pat) of
           NetworkError e \<Rightarrow> None
         | Response status statusText body \<Rightarrow>
             if \<not> ok status then None
             else case body of
                    None \<Rightarrow> None
                  | Some data \<Rightarrow>
                      if encoding data = js ''base64''
                      then (let text = decoded data
                            in if isBinaryContent text then None
                               else if length text > 50000
                                    then Some (take 50000 text @ truncationMarker)
                                    else Some text)
                      else None)"

text \<open>\<open>item.size || 0\<close> and \<open>item.size || content.length\<close>: a missing size and the size 0 are falsy.\<close>

definition sizeOr :: "nat option \<Rightarrow> nat \<Rightarrow> nat" where
  "sizeOr sz d = (case sz of None \<Rightarrow> d | Some n \<Rightarrow> if n = 0 then d else n)"

definition fetchGithubRepoContents ::
  "lowercasing \<Rightarrow> Network \<Rightarrow> jsstring \<Rightarrow> jsstring \<Rightarrow> jsstring option \<Rightarrow> error + FileInfo list" where
  "fetchGithubRepoContents toLowerCase net owner repo pat =
     (let treeUrl = treeUrlOf owner repo
      in case fetchTree net treeUrl (authorization pat) of
           NetworkError e \<Rightarrow> Inl e
         | Response status statusText body \<Rightarrow>
             if \<not> ok status
             then Inl (Error (js ''GitHub API error: '' @ numToString status @ js '' '' @ statusText))
             else case body of
                    Inl e \<Rightarrow> Inl e
                  | Inr tree \<Rightarrow>
                      (let selected = take 100 (filter (\<lambda>item. item_type item = js ''blob'' \<and>
                                         shouldIncludeGithubFile toLowerCase (item_path item)
                                           (sizeOr (item_size item) 0)) tree);
                           results = map (\<lambda>item.
                                       case fetchGithubFileContent net owner repo (item_sha item) pat of
                                         Some text \<Rightarrow>
                                           Some \<lparr> path = item_path item, content = text,
                                                  language = detectLanguage toLowerCase (item_path item),
                                                  size_f = sizeOr (item_size item) (length text) \<rparr>
                                       | None \<Rightarrow> None) selected;
                           files = List.map_filter (\<lambda>r. r) results
                       in Inr (sort_by (byImportance toLowerCase) files)))"

text \<open>
  \<open>repoUrl.match(/github\.com\/([^\/]+)\/([^\/]+)/)\<close>: at the leftmost position where it
  is possible, the text \<open>github.com/\<close>, a longest non-empty run without a slash (the
  owner), a slash, and again a longest non-empty run without a slash (the repository).
\<close>

definition matchRepoAt :: "jsstring \<Rightarrow> (jsstring \<times> jsstring) option" where
  "matchRepoAt s =
     (if startsWith s (js ''github.com/'')
      then (let r = drop 11 s;
                owner = takeWhile (\<lambda>c. c \<noteq> slash) r;
                r2 = dropWhile (\<lambda>c. c \<noteq> slash) r;
                repo = takeWhile (\<lambda>c. c \<noteq> slash) (tl r2)
            in if owner \<noteq> [] \<and> r2 \<noteq> [] \<and> repo \<noteq> [] then Some (owner, repo) else None)
      else None)"

fun matchRepoUrl :: "jsstring \<Rightarrow> (jsstring \<times> jsstring) option" where
  "matchRepoUrl [] = None"
| "matchRepoUrl (c # cs) =
     (case matchRepoAt (c # cs) of Some m \<Rightarrow> Some m | None \<Rightarrow> matchRepoUrl cs)"

definition RepositoryNotFoundOrAccessDenied :: error where
  "RepositoryNotFoundOrAccessDenied = Error (js ''Repository not found or access denied. Please check the URL and ensure you have proper permissions.'')"

definition AuthenticationRequired :: error where
  "AuthenticationRequired = Error (js ''Authentication failed. Please provide a valid GitHub Personal Access Token for private repositories.'')"

definition analyzeGithubRepo ::
  "lowercasing \<Rightarrow> Network \<Rightarrow> jsstring \<Rightarrow> jsstring option \<Rightarrow> error + FileInfo list" where
  "analyzeGithubRepo toLowerCase net repoUrl pat =
     (let attempt =
            (case matchRepoUrl repoUrl of
               None \<Rightarrow> Inl (Error (js ''Invalid GitHub repository URL format''))
             | Some (owner, repo) \<Rightarrow>
                 (let repoName = replace repo (js ''.git'') []
                  in fetchGithubRepoContents toLowerCase net owner repoName pat))
      in case attempt of
           Inr files \<Rightarrow> Inr files
         | Inl err \<Rightarrow>
             (let errorMessage = message err
              in if includes_js errorMessage (js ''404'') then Inl RepositoryNotFoundOrAccessDenied
                 else if includes_js errorMessage (js ''401'') \<or> includes_js errorMessage (js ''403'')
                      then Inl AuthenticationRequired
                 else Inl err))"

section \<open>The entry points (index.ts)\<close>

text \<open>
  Both entry points report 5 and 10 themselves and hand the coordinator a callback that
  rescales its percentage \<open>progress\<close> to \<open>10 + progress * 0.9\<close>.
\<close>

definition generateFromGithub ::
  "lowercasing \<Rightarrow> Network \<Rightarrow> Capabilities \<Rightarrow> jsstring \<Rightarrow> jsstring option \<Rightarrow> jsstring \<Rightarrow> jsstring option \<Rightarrow>
   DocumentationOptions \<Rightarrow> 'st callback option \<Rightarrow> 'st \<Rightarrow> 'st \<times> (error + AnalysisResult)" where
  "generateFromGithub toLowerCase net caps repoUrl pat projectName descr options onProgress st0 =
     (let st1 = notify onProgress (js ''Cloning repository...'') 5 st0
      in case analyzeGithubRepo toLowerCase net repoUrl pat of
           Inl e \<Rightarrow> (st1, Inl e)
         | Inr files \<Rightarrow>
             (let st2 = notify onProgress (js ''Starting analysis...'') 10 st1
              in generateDocumentation toLowerCase caps files \<lparr> name = projectName, description = descr \<rparr>
                   options
                   (Some (\<lambda>stage progress. notify onProgress stage (10 + progress * (9 / 10))))
                   st2))"

definition generateFromLocal ::
  "lowercasing \<Rightarrow> fsnode \<Rightarrow> Capabilities \<Rightarrow> jsstring \<Rightarrow> jsstring option \<Rightarrow>
   DocumentationOptions \<Rightarrow> 'st callback option \<Rightarrow> 'st \<Rightarrow> 'st \<times> (error + AnalysisResult)" where
  "generateFromLocal toLowerCase folder caps projectName descr options onProgress st0 =
     (let st1 = notify onProgress (js ''Analyzing local files...'') 5 st0;
          files = analyzeLocalFolder toLowerCase folder;
          st2 = notify onProgress (js ''Starting analysis...'') 10 st1
      in generateDocumentation toLowerCase caps files \<lparr> name = projectName, description = descr \<rparr>
           options
           (Some (\<lambda>stage progress. notify onProgress stage (10 + progress * (9 / 10))))
           st2)"

text \<open>
  The callback that records every invocation, in order; its owner's state is the list of
  the (label, percentage) pairs received so far.
\<close>

definition record_progress :: "(jsstring \<times> rat) list callback" where
  "record_progress stage progress st = st @ [(stage, progress)]"

section \<open>The entries below a folder\<close>

text \<open>
  For stating what the walk leaves out: every entry below a folder, whatever the walker
  does with it, as the tuple of its root-relative path (the names from the root down to
  the entry, joined by slashes), its own name, the number of directories between the root
  and the entry, and the entry itself. \<open>cur\<close> is the root-relative path of the folder,
  empty for the root.
\<close>

fun entries :: "jsstring \<Rightarrow> nat \<Rightarrow> fsnode \<Rightarrow> (jsstring \<times> jsstring \<times> nat \<times> fsnode) list"
  and entriesOf ::
    "jsstring \<Rightarrow> nat \<Rightarrow> (jsstring \<times> fsnode) list \<Rightarrow> (jsstring \<times> jsstring \<times> nat \<times> fsnode) list"
where
  "entries cur level (Dir items) = entriesOf cur level items"
| "entries cur level (File sz rd) = []"
| "entries cur level DirUnreadable = []"
| "entries cur level Special = []"
| "entries cur level StatError = []"
| "entriesOf cur level [] = []"
| "entriesOf cur level ((item, node) # rest) =
     (let p = (if cur = [] then item else cur @ [slash] @ item)
      in (p, item, level, node) # entries p (level + 1) node @ entriesOf cur level rest)"

text \<open>No \<open>fs.stat\<close> below the folder throws.\<close>

definition statsSucceed :: "fsnode \<Rightarrow> bool" where
  "statsSucceed folder \<longleftrightarrow>
     list_all (\<lambda>(p, item, level, node). node \<noteq> StatError) (entries [] 0 folder)"

section \<open>Scripted collaborators for the examples\<close>

text \<open>Capabilities that answer every call with a fixed outcome.\<close>

definition scripted ::
  "error + jsstring \<Rightarrow> error + jsstring \<Rightarrow> error + jsstring \<Rightarrow> error + jsstring \<Rightarrow>
   error + unit \<Rightarrow> Capabilities" where
  "scripted c d r s m =
     \<lparr> codeAnalyzer = (\<lambda>files. c), docAnalyzer = (\<lambda>files. d),
       generateText = (\<lambda>sys usr. r), specGenerator = (\<lambda>ca da p. s),
       sendMail = (\<lambda>rcpt pn t f meta. m) \<rparr>"

text \<open>A network that answers every tree request and every blob request with a fixed outcome.\<close>

definition scriptedNetwork ::
  "(error + TreeItem list) fetched \<Rightarrow> (BlobData option) fetched \<Rightarrow> Network" where
  "scriptedNetwork t b = \<lparr> fetchTree = (\<lambda>url auth. t), fetchBlob = (\<lambda>url auth. b) \<rparr>"

text \<open>
  A folder with \<open>src/template.ts\<close>, the hidden directory \<open>src/.hidden\<close> holding \<open>h.ts\<close>,
  and the hidden file \<open>.env\<close> at the root.
\<close>

definition exampleFolder :: fsnode where
  "exampleFolder =
     Dir [(js ''src'', Dir [(js ''template.ts'', File 3 (Inr (js ''abc''))),
                            (js ''.hidden'', Dir [(js ''h.ts'', File 3 (Inr (js ''abc'')))])]),
          (js ''.env'', File 3 (Inr (js ''abc'')))]"


section \<open>Facts about the string operations\<close>

lemma startsWith_take: "startsWith s p \<longleftrightarrow> take (length p) s = p"
  by (induction s p rule: startsWith.induct) auto

lemma includes_js_Nil [simp]: "includes_js s []"
  by (cases s) simp_all

lemma includes_js_iff: "includes_js s p \<longleftrightarrow> (\<exists>a b. s = a @ p @ b)"
proof (induction s)
  case Nil
  then show ?case by auto
next
  case (Cons c cs)
  show ?case
  proof
    assume "includes_js (c # cs) p"
    then consider "startsWith (c # cs) p" | "includes_js cs p" by auto
    then show "\<exists>a b. c # cs = a @ p @ b"
    proof cases
      case 1
      then have "c # cs = [] @ p @ drop (length p) (c # cs)"
        by (metis append_Nil append_take_drop_id startsWith_take)
      then show ?thesis by blast
    next
      case 2
      then obtain a b where "cs = a @ p @ b" using Cons.IH by blast
      then have "c # cs = (c # a) @ p @ b" by simp
      then show ?thesis by blast
    qed
  next
    assume "\<exists>a b. c # cs = a @ p @ b"
    then obtain a b where ab: "c # cs = a @ p @ b" by blast
    show "includes_js (c # cs) p"
    proof (cases a)
      case Nil
      then have "startsWith (c # cs) p" using ab by (simp add: startsWith_take)
      then show ?thesis by simp
    next
      case (Cons x a')
      then have "cs = a' @ p @ b" using ab by simp
      then show ?thesis using Cons.IH by auto
    qed
  qed
qed

text \<open>Without an occurrence of the separator the text is the only segment.\<close>

lemma split_from_absent:
  "\<not> includes_js t sep \<Longrightarrow> split_from sep cur t = [cur @ t]"
  by (induction t arbitrary: cur) auto

text \<open>
  A separator whose first code unit does not occur again in it cannot begin inside a
  non-empty text \<open>tb\<close> and end inside the separator that follows \<open>tb\<close>.
\<close>

lemma startsWith_straddle:
  assumes "startsWith (tb @ sep @ rest) sep" "tb \<noteq> []" "hd sep \<notin> set (tl sep)"
  shows "startsWith tb sep"
proof (cases "length sep \<le> length tb")
  case True
  then show ?thesis using assms(1) by (simp add: startsWith_take)
next
  case False
  then have lt: "length tb < length sep" by simp
  have eq: "take (length sep) (tb @ sep @ rest) = sep"
    using assms(1) by (simp add: startsWith_take)
  have "sep ! length tb = (tb @ sep @ rest) ! length tb"
    using lt eq by (metis nth_take)
  also have "\<dots> = hd sep" using lt by (cases sep) (simp_all add: nth_append)
  finally have "sep ! length tb = hd sep" .
  moreover have "0 < length tb" using assms(2) by simp
  ultimately have "hd sep \<in> set (tl sep)"
    using lt by (metis Suc_pred in_set_conv_nth length_tl less_diff_conv nth_tl Suc_eq_plus1)
  then show ?thesis using assms(3) by simp
qed

lemma split_from_first:
  assumes "sep \<noteq> []" "hd sep \<notin> set (tl sep)"
  shows "\<not> includes_js tb sep \<Longrightarrow>
     split_from sep cur (tb @ sep @ rest) = (cur @ tb) # split_from sep [] rest"
proof (induction tb arbitrary: cur)
  case Nil
  obtain c cs where sep: "sep = c # cs" using assms(1) by (cases sep) auto
  have "startsWith (sep @ rest) sep" by (simp add: startsWith_take)
  then show ?case using sep by simp
next
  case (Cons x tb)
  have "\<not> startsWith ((x # tb) @ sep @ rest) sep"
    using startsWith_straddle[of "x # tb" sep rest] assms(2) Cons.prems by auto
  moreover have "\<not> includes_js tb sep" using Cons.prems by simp
  ultimately show ?case using Cons.IH[of "cur @ [x]"] by simp
qed

section \<open>Splitting the generated text (parseSpecifications)\<close>

lemma specMarker_head: "specMarker \<noteq> [] \<and> hd specMarker \<notin> set (tl specMarker)"
  by (simp add: specMarker_def js_def)

lemma split_specMarker:
  assumes "\<not> includes_js tb specMarker" "\<not> includes_js ta specMarker"
  shows "split (tb @ specMarker @ ta) specMarker = [tb, ta]"
  using assms specMarker_head
  by (simp add: split_def split_from_first split_from_absent)

text \<open>
  C3, as the code has it. For texts \<open>tb\<close> and \<open>ta\<close> that do not contain the marker
  themselves, \<open>parseSpecifications\<close> on \<open>tb + marker + ta\<close> gives as technical document
  \<open>trim(tb)\<close> when that is not empty, and the whole combined text otherwise; as
  functional document \<open>trim(ta)\<close> when that is not empty, and the fallback document
  otherwise.
\<close>

theorem parseSpecifications_marker:
  assumes "\<not> includes_js tb specMarker" and "\<not> includes_js ta specMarker"
  shows "technicalSpec (parseSpecifications toLowerCase (tb @ specMarker @ ta) files) =
           (if trim tb = [] then tb @ specMarker @ ta else trim tb) \<and>
         functionalSpec (parseSpecifications toLowerCase (tb @ specMarker @ ta) files) =
           (if trim ta = [] then generateFallbackFunctionalSpec else trim ta)"
  using split_specMarker[OF assms]
  by (simp add: parseSpecifications_def Let_def elem_at_def)

theorem parseSpecifications_marker_witness:
  "technicalSpec (parseSpecifications lowerLatin1 (js ''# T '' @ specMarker @ js '' <p>F</p>'') []) = js ''# T'' \<and>
   functionalSpec (parseSpecifications lowerLatin1 (js ''# T '' @ specMarker @ js '' <p>F</p>'') []) = js ''<p>F</p>''"
proof -
  have a: "\<not> includes_js (js ''# T '') specMarker" by (simp add: js_def specMarker_def)
  have b: "\<not> includes_js (js '' <p>F</p>'') specMarker" by (simp add: js_def specMarker_def)
  have c: "trim (js ''# T '') = js ''# T''" by (simp add: js_def trim_def isWhiteSpace_def)
  have d: "trim (js '' <p>F</p>'') = js ''<p>F</p>''" by (simp add: js_def trim_def isWhiteSpace_def)
  have e: "js ''# T'' \<noteq> []" "js ''<p>F</p>'' \<noteq> []" by (simp_all add: js_def)
  show ?thesis using parseSpecifications_marker[OF a b, where files = "[]" and toLowerCase = lowerLatin1] c d e by simp
qed

text \<open>
  C3 as stated fails when nothing but white space precedes the marker: for the combined
  text \<open>marker + "x"\<close> the technical document is the whole combined text, not the empty
  \<open>trim("")\<close>.
\<close>

theorem parseSpecifications_marker_counterexample:
  "technicalSpec (parseSpecifications lowerLatin1 ([] @ specMarker @ js ''x'') []) \<noteq> trim []"
  by (simp add: parseSpecifications_def Let_def elem_at_def split_def specMarker_def js_def
      trim_def isWhiteSpace_def)

text \<open>
  C4, as the code has it. For a combined text without the marker the functional document
  is the fixed fallback document, and the technical document is \<open>trim(combined)\<close> when
  that is not empty, and the combined text itself, untrimmed, otherwise.
\<close>

theorem parseSpecifications_no_marker:
  assumes "\<not> includes_js combined specMarker"
  shows "technicalSpec (parseSpecifications toLowerCase combined files) =
           (if trim combined = [] then combined else trim combined) \<and>
         functionalSpec (parseSpecifications toLowerCase combined files) = generateFallbackFunctionalSpec"
  using assms specMarker_head
  by (simp add: parseSpecifications_def Let_def elem_at_def split_def split_from_absent)

theorem parseSpecifications_no_marker_witness:
  "technicalSpec (parseSpecifications lowerLatin1 (js '' # Spec'') []) = js ''# Spec'' \<and>
   functionalSpec (parseSpecifications lowerLatin1 (js '' # Spec'') []) = generateFallbackFunctionalSpec"
proof -
  have a: "\<not> includes_js (js '' # Spec'') specMarker" by (simp add: js_def specMarker_def)
  have c: "trim (js '' # Spec'') = js ''# Spec''" by (simp add: js_def trim_def isWhiteSpace_def)
  have e: "js ''# Spec'' \<noteq> []" by (simp add: js_def)
  show ?thesis using parseSpecifications_no_marker[OF a, where files = "[]" and toLowerCase = lowerLatin1] c e by simp
qed

text \<open>
  C4 as stated fails on a combined text of white space only: for \<open>" "\<close> the technical
  document is \<open>" "\<close>, not \<open>trim(" ") = ""\<close>.
\<close>

theorem parseSpecifications_no_marker_counterexample:
  "technicalSpec (parseSpecifications lowerLatin1 (js '' '') []) \<noteq> trim (js '' '')"
  by (simp add: parseSpecifications_def Let_def elem_at_def split_def specMarker_def js_def
      trim_def isWhiteSpace_def)

section \<open>The review stage (reviewAnalysis)\<close>

lemma docLabel_nonempty: "docLabel \<noteq> []"
  by (simp add: docLabel_def js_def)

text \<open>
  C7, as the code has it. When the response of the review capability does not contain
  the label \<open>DOCUMENTATION ANALYSIS:\<close>, the documentation analysis of the result is the
  original input, unmodified. The code analysis of the result is the response itself,
  with its first \<open>CODE ANALYSIS:\<close> removed and trimmed; the original code analysis is
  used only when that text is empty.
\<close>

theorem reviewAnalysis_label_absent:
  assumes "generateText caps reviewSystemPrompt (reviewPrompt codeIn docIn) = Inr response"
    and "\<not> includes_js response docLabel"
  shows "reviewAnalysis caps codeIn docIn =
           Inr \<lparr> codeAnalysis = (if trim (replace response codeLabel []) = [] then codeIn
                                  else trim (replace response codeLabel [])),
                 docAnalysis = docIn \<rparr>"
  using assms docLabel_nonempty
  by (simp add: reviewAnalysis_def Let_def split_def split_from_absent elem_at_def)

lemma x_no_label: "\<not> includes_js (js ''x'') docLabel"
  by (simp add: js_def docLabel_def)

lemma x_code: "trim (replace (js ''x'') codeLabel []) = js ''x''"
  by (simp add: js_def codeLabel_def trim_def isWhiteSpace_def)

theorem reviewAnalysis_label_absent_witness:
  "reviewAnalysis (scripted (Inr []) (Inr []) (Inr (js ''x'')) (Inr []) (Inr ())) (js ''a'') (js ''b'') =
     Inr \<lparr> codeAnalysis = js ''x'', docAnalysis = js ''b'' \<rparr>"
proof -
  have g: "generateText (scripted (Inr []) (Inr []) (Inr (js ''x'')) (Inr []) (Inr ()))
             reviewSystemPrompt (reviewPrompt (js ''a'') (js ''b'')) = Inr (js ''x'')"
    by (simp add: scripted_def)
  have ne: "js ''x'' \<noteq> []" by (simp add: js_def)
  show ?thesis
    using reviewAnalysis_label_absent[OF g x_no_label] x_code ne by simp
qed

text \<open>
  C7 as stated fails: for the inputs \<open>"a"\<close> and \<open>"b"\<close> and the response \<open>"x"\<close>, which
  has no label, the reviewed code analysis is \<open>"x"\<close> and not the original \<open>"a"\<close>.
\<close>

theorem reviewAnalysis_label_absent_counterexample:
  "\<not> includes_js (js ''x'') docLabel \<and>
   reviewAnalysis (scripted (Inr []) (Inr []) (Inr (js ''x'')) (Inr []) (Inr ())) (js ''a'') (js ''b'') \<noteq>
     Inr \<lparr> codeAnalysis = js ''a'', docAnalysis = js ''b'' \<rparr>"
  by (simp add: reviewAnalysis_def scripted_def Let_def split_def elem_at_def docLabel_def
      codeLabel_def js_def trim_def isWhiteSpace_def)

section \<open>Delivery (generateDocumentation, sendDocumentation)\<close>

text \<open>When the four generation stages succeed, the run returns the split of the generated text.\<close>

lemma generateDocumentation_result:
  assumes "codeAnalyzer caps files = Inr c" and "docAnalyzer caps files = Inr d"
    and "reviewAnalysis caps c d = Inr r"
    and "specGenerator caps (codeAnalysis r) (docAnalysis r) p = Inr s"
  shows "snd (generateDocumentation toLowerCase caps files p options cb st) = Inr (parseSpecifications toLowerCase s files)"
  using assms by (simp add: generateDocumentation_def Let_def)

lemma reviewAnalysis_sendMail [simp]:
  "reviewAnalysis (caps\<lparr>sendMail := m\<rparr>) c d = reviewAnalysis caps c d"
  by (simp add: reviewAnalysis_def)

text \<open>
  C6, as the code has it. In a run with \<open>sendEmail = true\<close> and a recipient whose four
  generation stages succeed and whose delivery fails, \<open>generateDocumentation\<close> completes
  normally and returns both documents. The result is the one the same run returns with
  any other delivery capability \<open>m\<close>, a succeeding one included: the outcome of the
  delivery is not recorded in the result.
\<close>

theorem delivery_failure_not_recorded:
  assumes "codeAnalyzer caps files = Inr c" and "docAnalyzer caps files = Inr d"
    and "reviewAnalysis caps c d = Inr r"
    and "specGenerator caps (codeAnalysis r) (docAnalysis r) p = Inr s"
    and "sendEmail options" and "recipientEmail options = Some rcpt" and "rcpt \<noteq> []"
    and "\<not> sendDocumentation caps rcpt (name p) (technicalSpec (parseSpecifications toLowerCase s files))
            (functionalSpec (parseSpecifications toLowerCase s files)) (metadata (parseSpecifications toLowerCase s files))"
  shows "snd (generateDocumentation toLowerCase caps files p options cb st) = Inr (parseSpecifications toLowerCase s files) \<and>
         snd (generateDocumentation toLowerCase (caps\<lparr>sendMail := m\<rparr>) files p options cb st) =
           snd (generateDocumentation toLowerCase caps files p options cb st)"
proof -
  have a: "snd (generateDocumentation toLowerCase caps files p options cb st) = Inr (parseSpecifications toLowerCase s files)"
    using assms(1-4) by (rule generateDocumentation_result)
  have "snd (generateDocumentation toLowerCase (caps\<lparr>sendMail := m\<rparr>) files p options cb st) =
          Inr (parseSpecifications toLowerCase s files)"
    by (rule generateDocumentation_result[where c = c and d = d and r = r]) (simp_all add: assms(1-4))
  with a show ?thesis by simp
qed


theorem delivery_failure_not_recorded_witness:
  "snd (generateDocumentation lowerLatin1
          (scripted (Inr (js ''c'')) (Inr (js ''d'')) (Inr (js ''r'')) (Inr (js ''s'')) (Inl (Error (js ''smtp''))))
          [] \<lparr> name = js ''p'', description = None \<rparr>
          \<lparr> sendEmail = True, recipientEmail = Some (js ''a@b.c'') \<rparr> (None :: unit callback option) ()) =
     Inr (parseSpecifications lowerLatin1 (js ''s'') []) \<and>
   snd (generateDocumentation lowerLatin1
          ((scripted (Inr (js ''c'')) (Inr (js ''d'')) (Inr (js ''r'')) (Inr (js ''s'')) (Inl (Error (js ''smtp''))))
             \<lparr> sendMail := (\<lambda>rcpt pn t f meta. Inr ()) \<rparr>)
          [] \<lparr> name = js ''p'', description = None \<rparr>
          \<lparr> sendEmail = True, recipientEmail = Some (js ''a@b.c'') \<rparr> (None :: unit callback option) ()) =
     snd (generateDocumentation lowerLatin1
          (scripted (Inr (js ''c'')) (Inr (js ''d'')) (Inr (js ''r'')) (Inr (js ''s'')) (Inl (Error (js ''smtp''))))
          [] \<lparr> name = js ''p'', description = None \<rparr>
          \<lparr> sendEmail = True, recipientEmail = Some (js ''a@b.c'') \<rparr> (None :: unit callback option) ())"
proof -
  let ?caps = "scripted (Inr (js ''c'')) (Inr (js ''d'')) (Inr (js ''r'')) (Inr (js ''s'')) (Inl (Error (js ''smtp'')))"
  let ?p = "\<lparr> name = js ''p'', description = None \<rparr>"
  let ?o = "\<lparr> sendEmail = True, recipientEmail = Some (js ''a@b.c'') \<rparr>"
  have r: "reviewAnalysis ?caps (js ''c'') (js ''d'') =
             Inr \<lparr> codeAnalysis = js ''r'', docAnalysis = js ''d'' \<rparr>"
    by (simp add: reviewAnalysis_def scripted_def Let_def split_def elem_at_def docLabel_def
        codeLabel_def js_def trim_def isWhiteSpace_def)
  have 1: "codeAnalyzer ?caps [] = Inr (js ''c'')" by (simp add: scripted_def)
  have 2: "docAnalyzer ?caps [] = Inr (js ''d'')" by (simp add: scripted_def)
  have 4: "specGenerator ?caps (codeAnalysis \<lparr> codeAnalysis = js ''r'', docAnalysis = js ''d'' \<rparr>)
             (docAnalysis \<lparr> codeAnalysis = js ''r'', docAnalysis = js ''d'' \<rparr>) ?p = Inr (js ''s'')"
    by (simp add: scripted_def)
  have 5: "sendEmail ?o" by simp
  have 6: "recipientEmail ?o = Some (js ''a@b.c'')" by simp
  have 7: "js ''a@b.c'' \<noteq> []" by (simp add: js_def)
  have 8: "\<not> sendDocumentation ?caps (js ''a@b.c'') (name ?p)
              (technicalSpec (parseSpecifications lowerLatin1 (js ''s'') []))
              (functionalSpec (parseSpecifications lowerLatin1 (js ''s'') []))
              (metadata (parseSpecifications lowerLatin1 (js ''s'') []))"
    by (simp add: sendDocumentation_def scripted_def)
  show ?thesis
    by (rule delivery_failure_not_recorded[OF 1 2 r 4 5 6 7 8])
qed

text \<open>
  C6 as stated fails: a run whose delivery fails and the same run with a delivery that
  succeeds return the same result. Its metadata has the four fields \<open>filesAnalyzed\<close>,
  \<open>codeLanguages\<close>, \<open>frameworks\<close> and \<open>architecture\<close> and nothing that tells a failed
  delivery from a successful one.
\<close>

theorem delivery_failure_not_recorded_counterexample:
  "\<not> sendDocumentation
       (scripted (Inr (js ''c'')) (Inr (js ''d'')) (Inr (js ''r'')) (Inr (js ''s'')) (Inl (Error (js ''smtp''))))
       (js ''a@b.c'') (js ''p'') (js ''s'') generateFallbackFunctionalSpec
       \<lparr> filesAnalyzed = 0, codeLanguages = [], frameworks = [], architecture = js ''Multi-tier'' \<rparr> \<and>
   sendDocumentation
       (scripted (Inr (js ''c'')) (Inr (js ''d'')) (Inr (js ''r'')) (Inr (js ''s'')) (Inr ()))
       (js ''a@b.c'') (js ''p'') (js ''s'') generateFallbackFunctionalSpec
       \<lparr> filesAnalyzed = 0, codeLanguages = [], frameworks = [], architecture = js ''Multi-tier'' \<rparr> \<and>
   snd (generateDocumentation lowerLatin1
          (scripted (Inr (js ''c'')) (Inr (js ''d'')) (Inr (js ''r'')) (Inr (js ''s'')) (Inl (Error (js ''smtp''))))
          [] \<lparr> name = js ''p'', description = None \<rparr>
          \<lparr> sendEmail = True, recipientEmail = Some (js ''a@b.c'') \<rparr> (None :: unit callback option) ()) =
     Inr \<lparr> technicalSpec = js ''s'', functionalSpec = generateFallbackFunctionalSpec,
           metadata = \<lparr> filesAnalyzed = 0, codeLanguages = [], frameworks = [],
                        architecture = js ''Multi-tier'' \<rparr> \<rparr> \<and>
   snd (generateDocumentation lowerLatin1
          (scripted (Inr (js ''c'')) (Inr (js ''d'')) (Inr (js ''r'')) (Inr (js ''s'')) (Inr ()))
          [] \<lparr> name = js ''p'', description = None \<rparr>
          \<lparr> sendEmail = True, recipientEmail = Some (js ''a@b.c'') \<rparr> (None :: unit callback option) ()) =
     Inr \<lparr> technicalSpec = js ''s'', functionalSpec = generateFallbackFunctionalSpec,
           metadata = \<lparr> filesAnalyzed = 0, codeLanguages = [], frameworks = [],
                        architecture = js ''Multi-tier'' \<rparr> \<rparr>"
proof -
  have s: "split (js ''s'') specMarker = [js ''s'']"
    by (simp add: split_def specMarker_def js_def)
  have t: "trim (js ''s'') = js ''s''" "js ''s'' \<noteq> []"
    by (simp_all add: js_def trim_def isWhiteSpace_def)
  have p: "parseSpecifications lowerLatin1 (js ''s'') [] =
             \<lparr> technicalSpec = js ''s'', functionalSpec = generateFallbackFunctionalSpec,
               metadata = \<lparr> filesAnalyzed = 0, codeLanguages = [], frameworks = [],
                            architecture = js ''Multi-tier'' \<rparr> \<rparr>"
    using s t
    by (simp add: parseSpecifications_def Let_def elem_at_def uniq_def extractFrameworks_def
        frameworkTable_def lowerLatin1_def) (simp add: js_def)
  have r: "\<And>m. reviewAnalysis (scripted (Inr (js ''c'')) (Inr (js ''d'')) (Inr (js ''r'')) (Inr (js ''s'')) m)
             (js ''c'') (js ''d'') = Inr \<lparr> codeAnalysis = js ''r'', docAnalysis = js ''d'' \<rparr>"
    by (simp add: reviewAnalysis_def scripted_def Let_def split_def elem_at_def docLabel_def
        codeLabel_def js_def trim_def isWhiteSpace_def)
  have g: "\<And>m. snd (generateDocumentation lowerLatin1
          (scripted (Inr (js ''c'')) (Inr (js ''d'')) (Inr (js ''r'')) (Inr (js ''s'')) m)
          [] \<lparr> name = js ''p'', description = None \<rparr>
          \<lparr> sendEmail = True, recipientEmail = Some (js ''a@b.c'') \<rparr> (None :: unit callback option) ()) =
          Inr (parseSpecifications lowerLatin1 (js ''s'') [])"
    by (rule generateDocumentation_result[OF _ _ r]) (simp_all add: scripted_def)
  show ?thesis
    unfolding g p by (simp add: sendDocumentation_def scripted_def)
qed

section \<open>Progress\<close>

lemma generateDocumentation_trace:
  assumes "snd (generateDocumentation toLowerCase caps files p options (Some f) st) = Inr res"
  shows "fst (generateDocumentation toLowerCase caps files p options (Some f) st) =
           f (js ''Documentation generation complete!'') 100
             ((if deliveryRequested options
               then f (js ''Sending documentation via email...'') 95 else (\<lambda>x. x))
              (f (js ''Finalizing documentation...'') 85
               (f (js ''Generating technical specifications...'') 70
                (f (js ''Reviewing and synthesizing analysis...'') 50
                 (f (js ''Analyzing existing documentation...'') 30
                  (f (js ''Analyzing code structure and architecture...'') 15 st))))))"
proof -
  obtain c where c: "codeAnalyzer caps files = Inr c"
    using assms by (cases "codeAnalyzer caps files") (simp_all add: generateDocumentation_def Let_def)
  obtain d where d: "docAnalyzer caps files = Inr d"
    using assms c
    by (cases "docAnalyzer caps files") (simp_all add: generateDocumentation_def Let_def)
  obtain r where r: "reviewAnalysis caps c d = Inr r"
    using assms c d
    by (cases "reviewAnalysis caps c d") (simp_all add: generateDocumentation_def Let_def)
  obtain s where s: "specGenerator caps (codeAnalysis r) (docAnalysis r) p = Inr s"
    using assms c d r
    by (cases "specGenerator caps (codeAnalysis r) (docAnalysis r) p")
       (simp_all add: generateDocumentation_def Let_def)
  show ?thesis
    using c d r s by (simp add: generateDocumentation_def Let_def notify_def)
qed

lemma rescaled_trace:
  assumes "snd (generateDocumentation toLowerCase caps files p options
             (Some (\<lambda>stage progress. notify (Some record_progress) stage (10 + progress * (9 / 10))))
             [(a, 5), (b, 10)]) = Inr res"
  shows "sorted (map snd (fst (generateDocumentation toLowerCase caps files p options
             (Some (\<lambda>stage progress. notify (Some record_progress) stage (10 + progress * (9 / 10))))
             [(a, 5), (b, 10)]))) \<and>
         last (map snd (fst (generateDocumentation toLowerCase caps files p options
             (Some (\<lambda>stage progress. notify (Some record_progress) stage (10 + progress * (9 / 10))))
             [(a, 5), (b, 10)]))) = 100"
  unfolding generateDocumentation_trace[OF assms]
  by (simp add: notify_def record_progress_def)

text \<open>
  C9. In a successful run through either entry point, the percentages passed to the
  caller's progress callback, in the order of the calls, never decrease, and the last one
  is exactly 100.
\<close>

theorem progress_monotone:
  "(snd (generateFromGithub toLowerCase net caps repoUrl pat projectName descr options
           (Some record_progress) []) = Inr res \<longrightarrow>
      sorted (map snd (fst (generateFromGithub toLowerCase net caps repoUrl pat projectName descr options
           (Some record_progress) []))) \<and>
      last (map snd (fst (generateFromGithub toLowerCase net caps repoUrl pat projectName descr options
           (Some record_progress) []))) = 100) \<and>
   (snd (generateFromLocal toLowerCase folder caps projectName descr options
           (Some record_progress) []) = Inr res' \<longrightarrow>
      sorted (map snd (fst (generateFromLocal toLowerCase folder caps projectName descr options
           (Some record_progress) []))) \<and>
      last (map snd (fst (generateFromLocal toLowerCase folder caps projectName descr options
           (Some record_progress) []))) = 100)"
proof (intro conjI impI)
  assume ok: "snd (generateFromGithub toLowerCase net caps repoUrl pat projectName descr options
           (Some record_progress) []) = Inr res"
  then obtain files where f: "analyzeGithubRepo toLowerCase net repoUrl pat = Inr files"
    by (cases "analyzeGithubRepo toLowerCase net repoUrl pat") (simp_all add: generateFromGithub_def Let_def)
  have eq: "generateFromGithub toLowerCase net caps repoUrl pat projectName descr options (Some record_progress) [] =
      generateDocumentation toLowerCase caps files \<lparr> name = projectName, description = descr \<rparr> options
        (Some (\<lambda>stage progress. notify (Some record_progress) stage (10 + progress * (9 / 10))))
        [(js ''Cloning repository...'', 5), (js ''Starting analysis...'', 10)]"
    using f by (simp add: generateFromGithub_def Let_def notify_def record_progress_def)
  from ok rescaled_trace[of toLowerCase caps files _ options _ _ res]
  show "sorted (map snd (fst (generateFromGithub toLowerCase net caps repoUrl pat projectName descr options
           (Some record_progress) [])))"
    and "last (map snd (fst (generateFromGithub toLowerCase net caps repoUrl pat projectName descr options
           (Some record_progress) []))) = 100"
    unfolding eq by blast+
next
  assume ok: "snd (generateFromLocal toLowerCase folder caps projectName descr options
           (Some record_progress) []) = Inr res'"
  have eq: "generateFromLocal toLowerCase folder caps projectName descr options (Some record_progress) [] =
      generateDocumentation toLowerCase caps (analyzeLocalFolder toLowerCase folder) \<lparr> name = projectName, description = descr \<rparr> options
        (Some (\<lambda>stage progress. notify (Some record_progress) stage (10 + progress * (9 / 10))))
        [(js ''Analyzing local files...'', 5), (js ''Starting analysis...'', 10)]"
    by (simp add: generateFromLocal_def Let_def notify_def record_progress_def)
  from ok rescaled_trace[of toLowerCase caps _ _ options _ _ res']
  show "sorted (map snd (fst (generateFromLocal toLowerCase folder caps projectName descr options
           (Some record_progress) [])))"
    and "last (map snd (fst (generateFromLocal toLowerCase folder caps projectName descr options
           (Some record_progress) []))) = 100"
    unfolding eq by blast+
qed


lemma example_url: "matchRepoUrl (js ''https://github.com/o/r'') = Some (js ''o'', js ''r'')"
  by (simp add: js_def matchRepoAt_def slash_def)

lemma example_repo: "analyzeGithubRepo lowerLatin1 (scriptedNetwork (Response 200 (js ''OK'') (Inr [])) (NetworkError (Error [])))
     (js ''https://github.com/o/r'') None = Inr []"
  unfolding analyzeGithubRepo_def example_url
  by (simp add: fetchGithubRepoContents_def scriptedNetwork_def ok_def Let_def sort_by_def
      List.map_filter_simps)

lemma example_review:
  "reviewAnalysis (scripted (Inr (js ''c'')) (Inr (js ''d'')) (Inr (js ''r'')) (Inr (js ''s'')) m)
     (js ''c'') (js ''d'') = Inr \<lparr> codeAnalysis = js ''r'', docAnalysis = js ''d'' \<rparr>"
  by (simp add: reviewAnalysis_def scripted_def Let_def split_def elem_at_def docLabel_def
      codeLabel_def js_def trim_def isWhiteSpace_def)

theorem progress_monotone_witness:
  "snd (generateFromGithub lowerLatin1 (scriptedNetwork (Response 200 (js ''OK'') (Inr [])) (NetworkError (Error [])))
          (scripted (Inr (js ''c'')) (Inr (js ''d'')) (Inr (js ''r'')) (Inr (js ''s'')) (Inl (Error [])))
          (js ''https://github.com/o/r'') None (js ''p'') None
          \<lparr> sendEmail = True, recipientEmail = Some (js ''a@b.c'') \<rparr>
          (Some record_progress) []) = Inr (parseSpecifications lowerLatin1 (js ''s'') []) \<and>
   sorted (map snd (fst (generateFromGithub lowerLatin1 (scriptedNetwork (Response 200 (js ''OK'') (Inr [])) (NetworkError (Error [])))
          (scripted (Inr (js ''c'')) (Inr (js ''d'')) (Inr (js ''r'')) (Inr (js ''s'')) (Inl (Error [])))
          (js ''https://github.com/o/r'') None (js ''p'') None
          \<lparr> sendEmail = True, recipientEmail = Some (js ''a@b.c'') \<rparr>
          (Some record_progress) []))) \<and>
   last (map snd (fst (generateFromGithub lowerLatin1 (scriptedNetwork (Response 200 (js ''OK'') (Inr [])) (NetworkError (Error [])))
          (scripted (Inr (js ''c'')) (Inr (js ''d'')) (Inr (js ''r'')) (Inr (js ''s'')) (Inl (Error [])))
          (js ''https://github.com/o/r'') None (js ''p'') None
          \<lparr> sendEmail = True, recipientEmail = Some (js ''a@b.c'') \<rparr>
          (Some record_progress) []))) = 100 \<and>
   snd (generateFromLocal lowerLatin1 (Dir [])
          (scripted (Inr (js ''c'')) (Inr (js ''d'')) (Inr (js ''r'')) (Inr (js ''s'')) (Inl (Error [])))
          (js ''p'') None \<lparr> sendEmail = True, recipientEmail = Some (js ''a@b.c'') \<rparr>
          (Some record_progress) []) = Inr (parseSpecifications lowerLatin1 (js ''s'') []) \<and>
   sorted (map snd (fst (generateFromLocal lowerLatin1 (Dir [])
          (scripted (Inr (js ''c'')) (Inr (js ''d'')) (Inr (js ''r'')) (Inr (js ''s'')) (Inl (Error [])))
          (js ''p'') None \<lparr> sendEmail = True, recipientEmail = Some (js ''a@b.c'') \<rparr>
          (Some record_progress) []))) \<and>
   last (map snd (fst (generateFromLocal lowerLatin1 (Dir [])
          (scripted (Inr (js ''c'')) (Inr (js ''d'')) (Inr (js ''r'')) (Inr (js ''s'')) (Inl (Error [])))
          (js ''p'') None \<lparr> sendEmail = True, recipientEmail = Some (js ''a@b.c'') \<rparr>
          (Some record_progress) []))) = 100"
proof -
  let ?caps = "scripted (Inr (js ''c'')) (Inr (js ''d'')) (Inr (js ''r'')) (Inr (js ''s'')) (Inl (Error []))"
  have gd: "\<And>files pinfo opts (cb :: (jsstring \<times> rat) list callback option) st.
      snd (generateDocumentation lowerLatin1 ?caps files pinfo opts cb st) = Inr (parseSpecifications lowerLatin1 (js ''s'') files)"
    by (rule generateDocumentation_result[OF _ _ example_review]) (simp_all add: scripted_def)
  have lf: "analyzeLocalFolder lowerLatin1 (Dir []) = []"
    by (simp add: analyzeLocalFolder_def sort_by_def)
  have g: "snd (generateFromGithub lowerLatin1 (scriptedNetwork (Response 200 (js ''OK'') (Inr [])) (NetworkError (Error [])))
          ?caps (js ''https://github.com/o/r'') None (js ''p'') None
          \<lparr> sendEmail = True, recipientEmail = Some (js ''a@b.c'') \<rparr>
          (Some record_progress) []) = Inr (parseSpecifications lowerLatin1 (js ''s'') [])"
    unfolding generateFromGithub_def example_repo by (simp add: Let_def gd)
  have l: "snd (generateFromLocal lowerLatin1 (Dir []) ?caps (js ''p'') None
          \<lparr> sendEmail = True, recipientEmail = Some (js ''a@b.c'') \<rparr>
          (Some record_progress) []) = Inr (parseSpecifications lowerLatin1 (js ''s'') [])"
    unfolding generateFromLocal_def by (simp add: Let_def gd lf)
  show ?thesis
    using g l
      progress_monotone[of lowerLatin1 "scriptedNetwork (Response 200 (js ''OK'') (Inr [])) (NetworkError (Error []))"
        ?caps "js ''https://github.com/o/r''" None "js ''p''" None
        "\<lparr> sendEmail = True, recipientEmail = Some (js ''a@b.c'') \<rparr>"
        "parseSpecifications lowerLatin1 (js ''s'') []" "Dir []"
        "parseSpecifications lowerLatin1 (js ''s'') []"]
    by blast
qed

section \<open>Ranking\<close>

lemma mset_insert_by: "mset (insert_by cmp x xs) = add_mset x (mset xs)"
  by (induction xs) simp_all

lemma mset_sort_by: "mset (sort_by cmp xs) = mset xs"
  by (induction xs) (simp_all add: sort_by_def mset_insert_by)

lemma set_insert_by: "set (insert_by cmp x xs) = insert x (set xs)"
  by (induction xs) auto

lemma byImportance_le:
  "byImportance toLowerCase a b \<le> 0 \<longleftrightarrow> getFileImportanceScore toLowerCase (path b) \<le> getFileImportanceScore toLowerCase (path a)"
  by (simp add: byImportance_def Let_def)

lemma sorted_insert_by:
  assumes "sorted_wrt (\<lambda>a b. getFileImportanceScore toLowerCase (path b) \<le> getFileImportanceScore toLowerCase (path a)) xs"
  shows "sorted_wrt (\<lambda>a b. getFileImportanceScore toLowerCase (path b) \<le> getFileImportanceScore toLowerCase (path a))
           (insert_by (byImportance toLowerCase) x xs)"
  using assms
proof (induction xs)
  case Nil
  then show ?case by simp
next
  case (Cons y ys)
  show ?case
  proof (cases "byImportance toLowerCase x y \<le> 0")
    case True
    then have "getFileImportanceScore toLowerCase (path y) \<le> getFileImportanceScore toLowerCase (path x)"
      by (simp add: byImportance_le)
    moreover have "\<forall>z\<in>set ys. getFileImportanceScore toLowerCase (path z) \<le> getFileImportanceScore toLowerCase (path y)"
      using Cons.prems by simp
    ultimately show ?thesis using True Cons.prems by fastforce
  next
    case False
    then have "getFileImportanceScore toLowerCase (path x) \<le> getFileImportanceScore toLowerCase (path y)"
      by (simp add: byImportance_le)
    then show ?thesis using False Cons by (auto simp: set_insert_by)
  qed
qed

lemma sorted_sort_by:
  "sorted_wrt (\<lambda>a b. getFileImportanceScore toLowerCase (path b) \<le> getFileImportanceScore toLowerCase (path a))
     (sort_by (byImportance toLowerCase) xs)"
  by (induction xs) (simp_all add: sort_by_def sorted_insert_by)

lemma sort_by_sorted:
  "sorted_wrt (\<lambda>a b. getFileImportanceScore toLowerCase (path b) \<le> getFileImportanceScore toLowerCase (path a)) xs \<Longrightarrow>
   sort_by (byImportance toLowerCase) xs = xs"
proof (induction xs)
  case Nil
  then show ?case by (simp add: sort_by_def)
next
  case (Cons x xs)
  then have "sort_by (byImportance toLowerCase) xs = xs" by simp
  then have "sort_by (byImportance toLowerCase) (x # xs) = insert_by (byImportance toLowerCase) x xs"
    by (simp add: sort_by_def)
  also have "\<dots> = x # xs"
    using Cons.prems by (cases xs) (simp_all add: byImportance_le)
  finally show ?case .
qed

text \<open>
  C8. For every list of FileRecords the ranked list, which is what \<open>analyzeLocalFolder\<close>
  returns for the records of the walk, is a permutation of the list, is sorted
  non-increasing by \<open>getFileImportanceScore\<close> of the paths, and ranking it again leaves
  it as it is.
\<close>

theorem ranking_sorted_permutation:
  "mset (sort_by (byImportance toLowerCase) files) = mset files \<and>
   sorted_wrt (\<lambda>a b. getFileImportanceScore toLowerCase (path a) \<ge> getFileImportanceScore toLowerCase (path b))
     (sort_by (byImportance toLowerCase) files) \<and>
   sort_by (byImportance toLowerCase) (sort_by (byImportance toLowerCase) files) = sort_by (byImportance toLowerCase) files \<and>
   analyzeLocalFolder toLowerCase folder = sort_by (byImportance toLowerCase) (walkDirectory toLowerCase [] folder [] 0)"
  by (simp add: mset_sort_by sorted_sort_by sort_by_sorted analyzeLocalFolder_def)

theorem ranking_sorted_permutation_witness:
  "sort_by (byImportance lowerLatin1)
     [\<lparr> path = js ''a.ts'', content = [], language = js ''typescript'', size_f = 0 \<rparr>,
      \<lparr> path = js ''README.md'', content = [], language = js ''markdown'', size_f = 0 \<rparr>] =
     [\<lparr> path = js ''README.md'', content = [], language = js ''markdown'', size_f = 0 \<rparr>,
      \<lparr> path = js ''a.ts'', content = [], language = js ''typescript'', size_f = 0 \<rparr>] \<and>
   sorted_wrt (\<lambda>a b. getFileImportanceScore lowerLatin1 (path a) \<ge> getFileImportanceScore lowerLatin1 (path b))
     [\<lparr> path = js ''README.md'', content = [], language = js ''markdown'', size_f = 0 \<rparr>,
      \<lparr> path = js ''a.ts'', content = [], language = js ''typescript'', size_f = 0 \<rparr>]"
proof -
  have a: "getFileImportanceScore lowerLatin1 (js ''a.ts'') = 50"
    by (simp add: getFileImportanceScore_def Let_def basename_def extname_def lowerLatin1_def
        lowerChar_def slash_def dot_def codeExts_def js_def)
  have b: "getFileImportanceScore lowerLatin1 (js ''README.md'') = 100"
    by (simp add: getFileImportanceScore_def Let_def basename_def lowerLatin1_def
        lowerChar_def slash_def js_def)
  have s: "sort_by (byImportance lowerLatin1)
     [\<lparr> path = js ''a.ts'', content = [], language = js ''typescript'', size_f = 0 \<rparr>,
      \<lparr> path = js ''README.md'', content = [], language = js ''markdown'', size_f = 0 \<rparr>] =
     [\<lparr> path = js ''README.md'', content = [], language = js ''markdown'', size_f = 0 \<rparr>,
      \<lparr> path = js ''a.ts'', content = [], language = js ''typescript'', size_f = 0 \<rparr>]"
    by (simp add: sort_by_def byImportance_def Let_def a b)
  show ?thesis
    using ranking_sorted_permutation[of lowerLatin1
        "[\<lparr> path = js ''a.ts'', content = [], language = js ''typescript'', size_f = 0 \<rparr>,
          \<lparr> path = js ''README.md'', content = [], language = js ''markdown'', size_f = 0 \<rparr>]"
        "Dir []"] s
    by simp
qed

section \<open>What the walk leaves out\<close>

text \<open>One round of the loop of \<open>walkDirectory\<close>, case by case.\<close>

lemma walkItems_skipped:
  "shouldSkipPath (relativeOf cur item) \<Longrightarrow>
   walkItems lc cur ((item, node) # rest) files depth = walkItems lc cur rest files depth"
  by simp

lemma walkItems_directory:
  "\<not> shouldSkipPath (relativeOf cur item) \<Longrightarrow> node = Dir sub \<or> node = DirUnreadable \<Longrightarrow>
   walkItems lc cur ((item, node) # rest) files depth =
     walkItems lc cur rest (walkDirectory lc (relativeOf cur item) node files (depth + 1)) depth"
  by auto

lemma walkItems_pushed:
  "\<not> shouldSkipPath (relativeOf cur item) \<Longrightarrow> shouldIncludeFile lc item sz \<Longrightarrow>
   readFileContent rd = Some text \<Longrightarrow>
   walkItems lc cur ((item, File sz rd) # rest) files depth =
     walkItems lc cur rest
       (files @ [\<lparr> path = relativeOf cur item, content = text,
                   language = detectLanguage lc item, size_f = sz \<rparr>]) depth"
  by simp

lemma walkItems_passed:
  "\<not> shouldSkipPath (relativeOf cur item) \<Longrightarrow>
   \<not> shouldIncludeFile lc item sz \<or> readFileContent rd = None \<Longrightarrow>
   walkItems lc cur ((item, File sz rd) # rest) files depth = walkItems lc cur rest files depth"
  by auto

lemma walkItems_special:
  "\<not> shouldSkipPath (relativeOf cur item) \<Longrightarrow>
   walkItems lc cur ((item, Special) # rest) files depth = walkItems lc cur rest files depth"
  by simp

lemma walkItems_stat_error:
  "\<not> shouldSkipPath (relativeOf cur item) \<Longrightarrow>
   walkItems lc cur ((item, StatError) # rest) files depth = files"
  by simp

lemma walkDirectory_Dir:
  "walkDirectory lc cur (Dir items) files depth =
     (if depth > 10 then files else walkItems lc cur items files depth)"
  by simp

lemma walkDirectory_other:
  "(\<And>items. node \<noteq> Dir items) \<Longrightarrow> walkDirectory lc cur node files depth = files"
  by (cases node) auto

lemma entriesOf_Cons:
  "entriesOf cur level ((item, node) # rest) =
     (relativeOf cur item, item, level, node) # entries (relativeOf cur item) (level + 1) node
       @ entriesOf cur level rest"
  by (simp add: relativeOf_def Let_def)

text \<open>Records that were pushed stay.\<close>

lemma walk_keeps:
  "set files \<subseteq> set (walkDirectory lc cur node files depth)"
  "set files \<subseteq> set (walkItems lc cur items files depth)"
proof (induction lc cur node files depth and lc cur items files depth
    rule: walkDirectory_walkItems.induct)
  case (1 lc cur node files depth)
  then show ?case by (cases node) auto
next
  case (2 lc cur files depth)
  then show ?case by simp
next
  case (3 lc cur item node rest files depth)
  show ?case
  proof (cases "shouldSkipPath (relativeOf cur item)")
    case True
    then show ?thesis using 3(1) by (simp only: walkItems_skipped)
  next
    case False
    show ?thesis
    proof (cases node)
      case (File sz rd)
      show ?thesis
      proof (cases "shouldIncludeFile lc item sz \<and> readFileContent rd \<noteq> None")
        case True
        then obtain body where t: "readFileContent rd = Some body" by auto
        have "set (files @ [\<lparr> path = relativeOf cur item, content = body,
                   language = detectLanguage lc item, size_f = sz \<rparr>])
              \<subseteq> set (walkItems lc cur ((item, node) # rest) files depth)"
          using 3(3)[OF refl False File _ t] True t File
          by (simp only: walkItems_pushed[OF False _ t])
        then show ?thesis by auto
      next
        case no: False
        then have "walkItems lc cur ((item, node) # rest) files depth = walkItems lc cur rest files depth"
          using File walkItems_passed[OF False] by auto
        moreover have "set files \<subseteq> set (walkItems lc cur rest files depth)"
          using no 3(2)[OF refl False File] 3(4)[OF refl False File] by (cases "readFileContent rd") auto
        ultimately show ?thesis by simp
      qed
    next
      case (Dir sub)
      have "set files \<subseteq> set (walkDirectory lc (relativeOf cur item) node files (depth + 1))"
        using 3(5)[OF refl False Dir] .
      moreover have "set (walkDirectory lc (relativeOf cur item) node files (depth + 1))
          \<subseteq> set (walkItems lc cur rest (walkDirectory lc (relativeOf cur item) node files (depth + 1)) depth)"
        using 3(6)[OF refl False Dir] .
      ultimately show ?thesis
        using walkItems_directory[OF False, of node sub] Dir by simp
    next
      case DirUnreadable
      have "set files \<subseteq> set (walkDirectory lc (relativeOf cur item) node files (depth + 1))"
        using 3(7)[OF refl False DirUnreadable] .
      moreover have "set (walkDirectory lc (relativeOf cur item) node files (depth + 1))
          \<subseteq> set (walkItems lc cur rest (walkDirectory lc (relativeOf cur item) node files (depth + 1)) depth)"
        using 3(8)[OF refl False DirUnreadable] .
      ultimately show ?thesis
        using walkItems_directory[OF False, of node] DirUnreadable by simp
    next
      case Special
      then show ?thesis using 3(9)[OF refl False Special] False by simp
    next
      case StatError
      then show ?thesis using False by simp
    qed
  qed
qed


text \<open>
  Every record that the walk adds belongs to a regular file below the folder, carries the
  root-relative path of that file, and that path is not skipped.
\<close>

lemma walk_sound:
  "r \<in> set (walkDirectory lc cur node files depth) \<Longrightarrow>
     r \<in> set files \<or>
     (\<not> shouldSkipPath (path r) \<and>
      (\<exists>item level sz rd. (path r, item, level, File sz rd) \<in> set (entries cur depth node) \<and>
         shouldIncludeFile lc item sz \<and> readFileContent rd = Some (content r)))"
  "r \<in> set (walkItems lc cur items files depth) \<Longrightarrow>
     r \<in> set files \<or>
     (\<not> shouldSkipPath (path r) \<and>
      (\<exists>item level sz rd. (path r, item, level, File sz rd) \<in> set (entriesOf cur depth items) \<and>
         shouldIncludeFile lc item sz \<and> readFileContent rd = Some (content r)))"
proof (induction lc cur node files depth and lc cur items files depth
    rule: walkDirectory_walkItems.induct)
  case (1 lc cur node files depth)
  show ?case
  proof (cases "\<exists>sub. node = Dir sub \<and> \<not> 10 < depth")
    case True
    then obtain sub where sub: "node = Dir sub" "\<not> 10 < depth" by blast
    have "r \<in> set (walkItems lc cur sub files depth)" using 1(2) sub by simp
    from 1(1)[OF sub(2) sub(1) this] show ?thesis using sub by simp
  next
    case False
    then have "walkDirectory lc cur node files depth = files" by (cases node) auto
    then show ?thesis using 1(2) by simp
  qed
next
  case (2 lc cur files depth)
  then show ?case by simp
next
  case (3 lc cur item node rest files depth)
  let ?rel = "relativeOf cur item"
  let ?G = "\<lambda>es. \<not> shouldSkipPath (path r) \<and>
      (\<exists>item level sz rd. (path r, item, level, File sz rd) \<in> set es \<and>
         shouldIncludeFile lc item sz \<and> readFileContent rd = Some (content r))"
  have mono: "\<And>es es'. ?G es \<Longrightarrow> set es \<subseteq> set es' \<Longrightarrow> ?G es'" by blast
  have here: "set (entries ?rel (depth + 1) node) \<subseteq> set (entriesOf cur depth ((item, node) # rest))"
    and later: "set (entriesOf cur depth rest) \<subseteq> set (entriesOf cur depth ((item, node) # rest))"
    and self: "(?rel, item, depth, node) \<in> set (entriesOf cur depth ((item, node) # rest))"
    by (auto simp: entriesOf_Cons simp del: entriesOf.simps)
  show ?case
  proof (cases "shouldSkipPath ?rel")
    case True
    then have "r \<in> set (walkItems lc cur rest files depth)" using 3(10) by simp
    from 3(1)[OF refl True this] show ?thesis using mono[OF _ later] by blast
  next
    case False
    show ?thesis
    proof (cases node)
      case (File sz rd)
      show ?thesis
      proof (cases "shouldIncludeFile lc item sz \<and> readFileContent rd \<noteq> None")
        case True
        then obtain body where t: "readFileContent rd = Some body" by auto
        let ?new = "\<lparr> path = ?rel, content = body, language = detectLanguage lc item, size_f = sz \<rparr>"
        have "r \<in> set (walkItems lc cur rest (files @ [?new]) depth)"
          using 3(10) File True t False by simp
        from 3(3)[OF refl False File _ t this] True
        consider "r \<in> set files" | "r = ?new" | "?G (entriesOf cur depth rest)" by auto
        then show ?thesis
        proof cases
          case 1
          then show ?thesis by simp
        next
          case 2
          have "(path r, item, depth, File sz rd) \<in> set (entriesOf cur depth ((item, node) # rest))"
            using self 2 File by simp
          moreover have "\<not> shouldSkipPath (path r)" using False 2 by simp
          moreover have "shouldIncludeFile lc item sz" "readFileContent rd = Some (content r)"
            using True t 2 by simp_all
          ultimately show ?thesis by blast
        next
          case 3
          then show ?thesis using mono[OF _ later] by blast
        qed
      next
        case no: False
        then have "walkItems lc cur ((item, node) # rest) files depth = walkItems lc cur rest files depth"
          using File walkItems_passed[OF False] by auto
        then have "r \<in> set (walkItems lc cur rest files depth)" using 3(10) by simp
        moreover have "r \<in> set (walkItems lc cur rest files depth) \<Longrightarrow>
            r \<in> set files \<or> ?G (entriesOf cur depth rest)"
          using no 3(2)[OF refl False File] 3(4)[OF refl False File]
          by (cases "readFileContent rd") auto
        ultimately show ?thesis using mono[OF _ later] by blast
      qed
    next
      case (Dir sub)
      have "r \<in> set (walkItems lc cur rest (walkDirectory lc ?rel node files (depth + 1)) depth)"
        using 3(10) walkItems_directory[OF False, of node sub] Dir by simp
      from 3(6)[OF refl False Dir this]
      consider "r \<in> set (walkDirectory lc ?rel node files (depth + 1))"
        | "?G (entriesOf cur depth rest)" by blast
      then show ?thesis
      proof cases
        case 1
        from 3(5)[OF refl False Dir this] show ?thesis using mono[OF _ here] by blast
      next
        case 2
        then show ?thesis using mono[OF _ later] by blast
      qed
    next
      case DirUnreadable
      have "r \<in> set (walkItems lc cur rest (walkDirectory lc ?rel node files (depth + 1)) depth)"
        using 3(10) walkItems_directory[OF False, of node] DirUnreadable by simp
      from 3(8)[OF refl False DirUnreadable this]
      consider "r \<in> set (walkDirectory lc ?rel node files (depth + 1))"
        | "?G (entriesOf cur depth rest)" by blast
      then show ?thesis
      proof cases
        case 1
        from 3(7)[OF refl False DirUnreadable this] show ?thesis using mono[OF _ here] by blast
      next
        case 2
        then show ?thesis using mono[OF _ later] by blast
      qed
    next
      case Special
      then have "r \<in> set (walkItems lc cur rest files depth)" using 3(10) False by simp
      from 3(9)[OF refl False Special this] show ?thesis using mono[OF _ later] by blast
    next
      case StatError
      then show ?thesis using 3(10) False by simp
    qed
  qed
qed


text \<open>The skip test, spelled out, and its behaviour below a skipped entry.\<close>

lemma startsWith_dot: "startsWith p (js ''.'') \<longleftrightarrow> p \<noteq> [] \<and> hd p = dot"
  by (cases p) (auto simp: js_def dot_def)

lemma shouldSkipPath_char:
  "shouldSkipPath p \<longleftrightarrow>
     (\<exists>pattern \<in> set skipPatterns. includes_js p pattern) \<or> (p \<noteq> [] \<and> hd p = dot)"
proof -
  have "js ''node_modules'' \<in> set skipPatterns" by (simp add: skipPatterns_def)
  then show ?thesis
    by (auto simp: shouldSkipPath_def list_ex_iff startsWith_dot)
qed

lemma includes_js_append: "includes_js a p \<Longrightarrow> includes_js (a @ t) p"
proof -
  assume "includes_js a p"
  then obtain x y where "a = x @ p @ y" using includes_js_iff by blast
  then have "a @ t = x @ p @ (y @ t)" by simp
  then show ?thesis using includes_js_iff by blast
qed

lemma shouldSkipPath_below: "shouldSkipPath a \<Longrightarrow> shouldSkipPath (a @ t)"
  using includes_js_append[of a _ t] by (auto simp: shouldSkipPath_char)

text \<open>The path of an entry below a folder extends the path of the folder.\<close>

lemma entries_below:
  "(q, it, lvl, n) \<in> set (entries cur level node) \<Longrightarrow> (\<exists>t. q = cur @ t) \<and> level \<le> lvl"
  "(q, it, lvl, n) \<in> set (entriesOf cur level items) \<Longrightarrow> (\<exists>t. q = cur @ t) \<and> level \<le> lvl"
proof (induction cur level node and cur level items rule: entries_entriesOf.induct)
  case (7 cur level item node rest)
  let ?rel = "relativeOf cur item"
  have rel: "\<exists>t. ?rel = cur @ t" by (simp add: relativeOf_def)
  from 7(3) consider "(q, it, lvl, n) = (?rel, item, level, node)"
    | "(q, it, lvl, n) \<in> set (entries ?rel (level + 1) node)"
    | "(q, it, lvl, n) \<in> set (entriesOf cur level rest)"
    by (auto simp: entriesOf_Cons simp del: entriesOf.simps)
  then show ?case
  proof cases
    case 1
    then show ?thesis using rel by simp
  next
    case 2
    have "(\<exists>t. q = ?rel @ t) \<and> level + 1 \<le> lvl"
      using 7(1)[OF _ 2] by (simp add: relativeOf_def)
    then show ?thesis using rel by (metis append.assoc add_leD1)
  next
    case 3
    then show ?thesis using 7(2) by (simp add: relativeOf_def)
  qed
qed simp_all


text \<open>
  A regular file below the folder that is eligible, readable, at most ten directories
  deep and whose root-relative path is not skipped gets its record, provided no
  \<open>fs.stat\<close> throws.
\<close>

lemma walk_complete:
  assumes "\<not> shouldSkipPath q" and "readFileContent rd = Some body" and "lvl \<le> 10"
  shows
    "(q, it, lvl, File sz rd) \<in> set (entries cur depth node) \<Longrightarrow>
     list_all (\<lambda>(p, item, level, node). node \<noteq> StatError) (entries cur depth node) \<Longrightarrow>
     shouldIncludeFile lc it sz \<Longrightarrow>
     \<lparr> path = q, content = body, language = detectLanguage lc it, size_f = sz \<rparr>
       \<in> set (walkDirectory lc cur node files depth)"
    "(q, it, lvl, File sz rd) \<in> set (entriesOf cur depth items) \<Longrightarrow>
     list_all (\<lambda>(p, item, level, node). node \<noteq> StatError) (entriesOf cur depth items) \<Longrightarrow>
     shouldIncludeFile lc it sz \<Longrightarrow>
     \<lparr> path = q, content = body, language = detectLanguage lc it, size_f = sz \<rparr>
       \<in> set (walkItems lc cur items files depth)"
proof (induction lc cur node files depth and lc cur items files depth
    rule: walkDirectory_walkItems.induct)
  case (1 lc cur node files depth)
  obtain sub where sub: "node = Dir sub" using 1(2) by (cases node) auto
  have "depth \<le> lvl" using entries_below(1)[OF 1(2)] by simp
  then have d: "\<not> 10 < depth" using assms(3) by simp
  show ?case using 1(1)[OF d sub] 1(2,3,4) sub d by simp
next
  case (2 lc cur files depth)
  then show ?case by simp
next
  case (3 lc cur item node rest files depth)
  let ?rel = "relativeOf cur item"
  let ?r = "\<lparr> path = q, content = body, language = detectLanguage lc it, size_f = sz \<rparr>"
  have split: "entriesOf cur depth ((item, node) # rest) =
      (?rel, item, depth, node) # entries ?rel (depth + 1) node @ entriesOf cur depth rest"
    by (rule entriesOf_Cons)
  have okRest: "list_all (\<lambda>(p, item, level, node). node \<noteq> StatError) (entriesOf cur depth rest)"
    and okSub: "list_all (\<lambda>(p, item, level, node). node \<noteq> StatError) (entries ?rel (depth + 1) node)"
    and okSelf: "node \<noteq> StatError"
    using 3(11) unfolding split by simp_all
  from 3(10) consider
      (self) "q = ?rel" "it = item" "node = File sz rd"
    | (sub) "(q, it, lvl, File sz rd) \<in> set (entries ?rel (depth + 1) node)"
    | (rest) "(q, it, lvl, File sz rd) \<in> set (entriesOf cur depth rest)"
    unfolding split by auto
  then show ?case
  proof cases
    case self
    have ns: "\<not> shouldSkipPath ?rel" using assms(1) self(1) by simp
    have inc: "shouldIncludeFile lc item sz" using 3(12) self(2) by simp
    have "walkItems lc cur ((item, node) # rest) files depth =
            walkItems lc cur rest (files @ [?r]) depth"
      using walkItems_pushed[OF ns inc assms(2)] self by simp
    moreover have "?r \<in> set (files @ [?r])" by simp
    ultimately show ?thesis using walk_keeps(2)[of "files @ [?r]" lc cur rest depth] by auto
  next
    case sub
    obtain t where "q = ?rel @ t" using entries_below(1)[OF sub] by blast
    then have ns: "\<not> shouldSkipPath ?rel" using assms(1) shouldSkipPath_below by blast
    obtain items where dir: "node = Dir items" using sub by (cases node) auto
    have "?r \<in> set (walkDirectory lc ?rel node files (depth + 1))"
      using 3(5)[OF refl ns dir sub okSub 3(12)] .
    moreover have "walkItems lc cur ((item, node) # rest) files depth =
        walkItems lc cur rest (walkDirectory lc ?rel node files (depth + 1)) depth"
      using walkItems_directory[OF ns, of node items] dir by simp
    ultimately show ?thesis
      using walk_keeps(2)[of "walkDirectory lc ?rel node files (depth + 1)" lc cur rest depth] by auto
  next
    case rest
    show ?thesis
    proof (cases "shouldSkipPath ?rel")
      case True
      then show ?thesis using 3(1)[OF refl True rest okRest 3(12)] by simp
    next
      case False
      show ?thesis
      proof (cases node)
        case (File sz' rd')
        show ?thesis
        proof (cases "shouldIncludeFile lc item sz'")
          case inc: True
          show ?thesis
          proof (cases "readFileContent rd'")
            case None
            then show ?thesis
              using 3(2)[OF refl False File inc None rest okRest 3(12)] walkItems_passed[OF False, where lc = lc and sz = sz' and rd = rd']
                File by simp
          next
            case (Some b)
            then show ?thesis
              using 3(3)[OF refl False File inc Some rest okRest 3(12)] walkItems_pushed[OF False inc Some]
                File by simp
          qed
        next
          case exc: False
          then show ?thesis
            using 3(4)[OF refl False File exc rest okRest 3(12)] walkItems_passed[OF False, where lc = lc and sz = sz' and rd = rd']
              File by simp
        qed
      next
        case (Dir items)
        then show ?thesis
          using 3(6)[OF refl False Dir rest okRest 3(12)] walkItems_directory[OF False, of node items]
          by simp
      next
        case DirUnreadable
        then show ?thesis
          using 3(8)[OF refl False DirUnreadable rest okRest 3(12)] walkItems_directory[OF False, of node]
          by simp
      next
        case Special
        then show ?thesis using 3(9)[OF refl False Special rest okRest 3(12)] False by simp
      next
        case StatError
        then show ?thesis using okSelf by simp
      qed
    qed
  qed
qed


lemma set_sort_by: "set (sort_by cmp xs) = set xs"
  by (induction xs) (simp_all add: sort_by_def set_insert_by)

lemma set_analyzeLocalFolder:
  "set (analyzeLocalFolder lc folder) = set (walkDirectory lc [] folder [] 0)"
  by (simp add: analyzeLocalFolder_def set_sort_by)

text \<open>
  C10. In local ingestion the skip test holds of a root-relative path exactly when the
  path contains one of the deny-list fragments somewhere, or its first character is a
  dot. Every FileRecord that \<open>analyzeLocalFolder\<close> returns belongs to a regular file below
  the folder and carries the root-relative path of that file, and no initial part of that
  path is skipped: nothing is produced for a skipped entry or for anything below it.
  Conversely, when no \<open>fs.stat\<close> throws, a file that is eligible, readable and at most
  ten directories deep has a FileRecord exactly when its root-relative path is not
  skipped. At \<open>exampleFolder\<close> this gives the two consequences: \<open>src/template.ts\<close>
  contains \<open>temp\<close> and has no FileRecord; the hidden directory \<open>src/.hidden\<close> is not
  skipped, its path does not begin with a dot, and \<open>src/.hidden/h.ts\<close> has its
  FileRecord.
\<close>

theorem local_skip_rule:
  "(shouldSkipPath p \<longleftrightarrow>
      (\<exists>pattern \<in> set skipPatterns. includes_js p pattern) \<or> (p \<noteq> [] \<and> hd p = dot)) \<and>
   (\<forall>r \<in> set (analyzeLocalFolder toLowerCase folder).
      (\<exists>item level sz rd. (path r, item, level, File sz rd) \<in> set (entries [] 0 folder)) \<and>
      (\<forall>a t. path r = a @ t \<longrightarrow> \<not> shouldSkipPath a)) \<and>
   ((q, item, level, File sz rd) \<in> set (entries [] 0 folder) \<and> statsSucceed folder \<and>
    level \<le> 10 \<and> shouldIncludeFile toLowerCase item sz \<and> readFileContent rd = Some body \<longrightarrow>
      ((\<exists>r \<in> set (analyzeLocalFolder toLowerCase folder). path r = q) \<longleftrightarrow> \<not> shouldSkipPath q))"
proof (intro conjI ballI impI)
  show "shouldSkipPath p \<longleftrightarrow>
      (\<exists>pattern \<in> set skipPatterns. includes_js p pattern) \<or> (p \<noteq> [] \<and> hd p = dot)"
    by (rule shouldSkipPath_char)
next
  fix r assume "r \<in> set (analyzeLocalFolder toLowerCase folder)"
  then have "r \<in> set (walkDirectory toLowerCase [] folder [] 0)"
    by (simp add: set_analyzeLocalFolder)
  from walk_sound(1)[OF this]
  have ns: "\<not> shouldSkipPath (path r)"
    and ex: "\<exists>item level sz rd. (path r, item, level, File sz rd) \<in> set (entries [] 0 folder)"
    by auto
  show "\<exists>item level sz rd. (path r, item, level, File sz rd) \<in> set (entries [] 0 folder)"
    by (rule ex)
  show "\<forall>a t. path r = a @ t \<longrightarrow> \<not> shouldSkipPath a"
    using ns shouldSkipPath_below by metis
next
  assume h: "(q, item, level, File sz rd) \<in> set (entries [] 0 folder) \<and> statsSucceed folder \<and>
    level \<le> 10 \<and> shouldIncludeFile toLowerCase item sz \<and> readFileContent rd = Some body"
  show "(\<exists>r \<in> set (analyzeLocalFolder toLowerCase folder). path r = q) \<longleftrightarrow> \<not> shouldSkipPath q"
  proof
    assume "\<exists>r \<in> set (analyzeLocalFolder toLowerCase folder). path r = q"
    then obtain r where "r \<in> set (walkDirectory toLowerCase [] folder [] 0)" "path r = q"
      by (auto simp: set_analyzeLocalFolder)
    then show "\<not> shouldSkipPath q" using walk_sound(1)[of r toLowerCase "[]" folder "[]" 0] by auto
  next
    assume ns: "\<not> shouldSkipPath q"
    have "\<lparr> path = q, content = body, language = detectLanguage toLowerCase item, size_f = sz \<rparr>
            \<in> set (walkDirectory toLowerCase [] folder [] 0)"
      using walk_complete(1)[OF ns _ _ _ _, of rd body level item sz "[]" 0 folder toLowerCase "[]"] h
      by (simp add: statsSucceed_def)
    then show "\<exists>r \<in> set (analyzeLocalFolder toLowerCase folder). path r = q"
      unfolding set_analyzeLocalFolder by force
  qed
qed

lemma exampleFolder_entries:
  "entries [] 0 exampleFolder =
     [(js ''src'', js ''src'', 0,
         Dir [(js ''template.ts'', File 3 (Inr (js ''abc''))),
              (js ''.hidden'', Dir [(js ''h.ts'', File 3 (Inr (js ''abc'')))])]),
      (js ''src/template.ts'', js ''template.ts'', 1, File 3 (Inr (js ''abc''))),
      (js ''src/.hidden'', js ''.hidden'', 1, Dir [(js ''h.ts'', File 3 (Inr (js ''abc'')))]),
      (js ''src/.hidden/h.ts'', js ''h.ts'', 2, File 3 (Inr (js ''abc''))),
      (js ''.env'', js ''.env'', 0, File 3 (Inr (js ''abc'')))]"
  by (simp add: exampleFolder_def Let_def js_def slash_def)

theorem local_skip_rule_witness:
  "shouldSkipPath (js ''src/template.ts'') \<and>
   \<not> (\<exists>r \<in> set (analyzeLocalFolder lowerLatin1 exampleFolder). path r = js ''src/template.ts'') \<and>
   (\<exists>r \<in> set (analyzeLocalFolder lowerLatin1 exampleFolder). path r = js ''src/.hidden/h.ts'') \<and>
   \<not> shouldSkipPath (js ''src/.hidden'') \<and> hd (js ''src/.hidden'') \<noteq> dot"
proof -
  have ok: "statsSucceed exampleFolder"
    by (simp add: statsSucceed_def exampleFolder_entries)
  have rd: "readFileContent (Inr (js ''abc'')) = Some (js ''abc'')"
    by (simp add: readFileContent_def isBinaryContent_def isControl_def js_def)
  have inc: "shouldIncludeFile lowerLatin1 (js ''template.ts'') 3"
    "shouldIncludeFile lowerLatin1 (js ''h.ts'') 3"
    by (simp_all add: shouldIncludeFile_def Let_def extname_def basename_def js_def dot_def slash_def
        lowerLatin1_def lowerChar_def supportedExtensions_def)
  have e1: "(js ''src/template.ts'', js ''template.ts'', 1, File 3 (Inr (js ''abc'')))
              \<in> set (entries [] 0 exampleFolder)"
    and e2: "(js ''src/.hidden/h.ts'', js ''h.ts'', 2, File 3 (Inr (js ''abc'')))
              \<in> set (entries [] 0 exampleFolder)"
    by (simp_all add: exampleFolder_entries)
  have temp: "js ''temp'' \<in> set skipPatterns" "includes_js (js ''src/template.ts'') (js ''temp'')"
    by (simp_all add: skipPatterns_def js_def)
  have clean: "\<not> (\<exists>pattern \<in> set skipPatterns. includes_js (js ''src/.hidden/h.ts'') pattern)"
    "js ''src/.hidden/h.ts'' \<noteq> []" "hd (js ''src/.hidden/h.ts'') \<noteq> dot"
    by (simp_all add: skipPatterns_def js_def dot_def)
  note t1 = local_skip_rule[of "js ''src/template.ts''" lowerLatin1 exampleFolder
      "js ''src/template.ts''" "js ''template.ts''" 1 3 "Inr (js ''abc'')" "js ''abc''"]
  note t2 = local_skip_rule[of "js ''src/.hidden/h.ts''" lowerLatin1 exampleFolder
      "js ''src/.hidden/h.ts''" "js ''h.ts''" 2 3 "Inr (js ''abc'')" "js ''abc''"]
  have s1: "shouldSkipPath (js ''src/template.ts'')" using t1 temp by blast
  have n1: "\<not> (\<exists>r \<in> set (analyzeLocalFolder lowerLatin1 exampleFolder). path r = js ''src/template.ts'')"
    using t1 s1 e1 ok inc(1) rd by simp
  have s2: "\<not> shouldSkipPath (js ''src/.hidden/h.ts'')" using t2 clean by blast
  have x2: "\<exists>r \<in> set (analyzeLocalFolder lowerLatin1 exampleFolder). path r = js ''src/.hidden/h.ts''"
    using t2 s2 e2 ok inc(2) rd by simp
  then obtain r where r: "r \<in> set (analyzeLocalFolder lowerLatin1 exampleFolder)"
    "path r = js ''src/.hidden'' @ js ''/h.ts''" by (auto simp: js_def)
  have s3: "\<not> shouldSkipPath (js ''src/.hidden'')" using t2 r by blast
  have d: "hd (js ''src/.hidden'') \<noteq> dot" by (simp add: js_def dot_def)
  show ?thesis using s1 n1 x2 s3 d by blast
qed

section \<open>Classifying a failed tree listing (analyzeGithubRepo)\<close>

text \<open>A code unit that is not in the pattern separates the search.\<close>

lemma startsWith_sep: "c \<notin> set p \<Longrightarrow> startsWith (a @ c # b) p = startsWith a p"
proof (induction a arbitrary: p)
  case Nil
  then show ?case by (cases p) auto
next
  case (Cons x a)
  then show ?case by (cases p) auto
qed

lemma includes_js_sep:
  assumes "c \<notin> set p" "p \<noteq> []"
  shows "includes_js (a @ c # b) p \<longleftrightarrow> includes_js a p \<or> includes_js b p"
proof (induction a)
  case Nil
  have "\<not> startsWith (c # b) p" using assms by (cases p) auto
  then show ?case using assms by simp
next
  case (Cons x a)
  have "startsWith ((x # a) @ c # b) p = startsWith (x # a) p"
    using assms(1) by (rule startsWith_sep)
  then show ?case using Cons by auto
qed

lemma includes_js_same_length:
  assumes "length s = length p"
  shows "includes_js s p \<longleftrightarrow> s = p"
proof
  assume "includes_js s p"
  then obtain a b where ab: "s = a @ p @ b" using includes_js_iff by blast
  then have "length a + length b = 0" using assms by simp
  then show "s = p" using ab by simp
next
  assume "s = p"
  then have "s = [] @ p @ []" by simp
  then show "includes_js s p" using includes_js_iff by blast
qed

lemma digit_eq:
  assumes "d < 10" "e < 10"
  shows "(of_nat d :: 16 word) = of_nat e \<longleftrightarrow> d = e"
proof
  assume "(of_nat d :: 16 word) = of_nat e"
  then have "unat (of_nat d :: 16 word) = unat (of_nat e :: 16 word)" by simp
  then show "d = e" using assms by (simp add: unat_of_nat)
qed simp

lemma numToString_three:
  assumes "100 \<le> n" "n < 1000"
  shows "numToString n = [0x30 + of_nat (n div 100), 0x30 + of_nat (n div 10 mod 10), 0x30 + of_nat (n mod 10)]"
proof -
  have a: "\<not> n < 10" "\<not> n div 10 < 10" "n div 10 div 10 < 10" using assms by auto
  have b: "n div 10 div 10 = n div 100" by (simp add: div_mult2_eq)
  show ?thesis
    apply (subst numToString.simps)
    apply (subst numToString.simps)
    apply (subst numToString.simps)
    using a b by simp
qed

lemma three_digits: "(n::nat) = 100 * (n div 100) + 10 * (n div 10 mod 10) + n mod 10"
proof -
  have 1: "n = 10 * (n div 10) + n mod 10" by simp
  have 2: "n div 10 = 10 * (n div 10 div 10) + n div 10 mod 10" by simp
  have 3: "n div 10 div 10 = n div 100" by (simp add: div_mult2_eq)
  have "n = 10 * (10 * (n div 100) + n div 10 mod 10) + n mod 10"
    using 1 2 3 by metis
  then show ?thesis by (simp only: distrib_left mult.assoc[symmetric])
qed

lemma numToString_code:
  assumes "100 \<le> n" "n < 1000" "a < 10" "b < 10" "c < 10"
    and "numToString n = [0x30 + of_nat a, 0x30 + of_nat b, 0x30 + of_nat c]"
  shows "n = 100 * a + 10 * b + c"
proof -
  have "n div 100 < 10" "n div 10 mod 10 < 10" "n mod 10 < 10" using assms(2) by auto
  then have "n div 100 = a \<and> n div 10 mod 10 = b \<and> n mod 10 = c"
    using assms(3-6) by (simp add: numToString_three[OF assms(1,2)] digit_eq)
  then show ?thesis using three_digits[of n] by simp
qed

lemma numToString_not_code:
  assumes "100 \<le> n" "n < 1000"
  shows "n \<noteq> 404 \<Longrightarrow> \<not> includes_js (numToString n) (js ''404'')"
    and "n \<noteq> 401 \<Longrightarrow> \<not> includes_js (numToString n) (js ''401'')"
    and "n \<noteq> 403 \<Longrightarrow> \<not> includes_js (numToString n) (js ''403'')"
proof -
  have len: "length (numToString n) = 3" by (simp add: numToString_three[OF assms])
  have c404: "js ''404'' = [0x30 + of_nat 4, 0x30 + of_nat 0, 0x30 + of_nat (4::nat)]"
    and c401: "js ''401'' = [0x30 + of_nat 4, 0x30 + of_nat 0, 0x30 + of_nat (1::nat)]"
    and c403: "js ''403'' = [0x30 + of_nat 4, 0x30 + of_nat 0, 0x30 + of_nat (3::nat)]"
    by (simp_all add: js_def)
  show "n \<noteq> 404 \<Longrightarrow> \<not> includes_js (numToString n) (js ''404'')"
    using numToString_code[OF assms, of 4 0 4] len
    by (auto simp: includes_js_same_length c404 simp del: of_nat_numeral)
  show "n \<noteq> 401 \<Longrightarrow> \<not> includes_js (numToString n) (js ''401'')"
    using numToString_code[OF assms, of 4 0 1] len
    by (auto simp: includes_js_same_length c401 simp del: of_nat_numeral)
  show "n \<noteq> 403 \<Longrightarrow> \<not> includes_js (numToString n) (js ''403'')"
    using numToString_code[OF assms, of 4 0 3] len
    by (auto simp: includes_js_same_length c403 simp del: of_nat_numeral)
qed


lemma message_includes:
  assumes "0x20 \<notin> set code" "code \<noteq> []"
    and "\<not> includes_js (js ''GitHub API error:'') code"
  shows "includes_js (js ''GitHub API error: '' @ d @ js '' '' @ statusText) code \<longleftrightarrow>
           includes_js d code \<or> includes_js statusText code"
proof -
  have e: "js ''GitHub API error: '' @ d @ js '' '' @ statusText =
          js ''GitHub API error:'' @ 0x20 # (d @ 0x20 # statusText)"
    by (simp add: js_def)
  have "includes_js (js ''GitHub API error:'' @ 0x20 # (d @ 0x20 # statusText)) code \<longleftrightarrow>
          includes_js (js ''GitHub API error:'') code \<or> includes_js (d @ 0x20 # statusText) code"
    using assms(1,2) by (rule includes_js_sep)
  moreover have "includes_js (d @ 0x20 # statusText) code \<longleftrightarrow>
          includes_js d code \<or> includes_js statusText code"
    using assms(1,2) by (rule includes_js_sep)
  ultimately show ?thesis unfolding e using assms(3) by blast
qed

lemma message_404:
  "includes_js (js ''GitHub API error: '' @ d @ js '' '' @ statusText) (js ''404'') \<longleftrightarrow>
     includes_js d (js ''404'') \<or> includes_js statusText (js ''404'')"
  by (rule message_includes) (simp_all add: js_def)

lemma message_401:
  "includes_js (js ''GitHub API error: '' @ d @ js '' '' @ statusText) (js ''401'') \<longleftrightarrow>
     includes_js d (js ''401'') \<or> includes_js statusText (js ''401'')"
  by (rule message_includes) (simp_all add: js_def)

lemma message_403:
  "includes_js (js ''GitHub API error: '' @ d @ js '' '' @ statusText) (js ''403'') \<longleftrightarrow>
     includes_js d (js ''403'') \<or> includes_js statusText (js ''403'')"
  by (rule message_includes) (simp_all add: js_def)

lemma numToString_codes:
  "numToString 404 = js ''404''" "numToString 401 = js ''401''" "numToString 403 = js ''403''"
  by (simp_all add: numToString_three js_def)

lemma includes_js_self: "includes_js s s"
  by (simp add: includes_js_same_length)

lemma analyzeGithubRepo_listing_failure:
  assumes "matchRepoUrl repoUrl = Some (owner, repo)"
    and "fetchTree net (treeUrlOf owner (replace repo (js ''.git'') [])) (authorization pat) =
           Response status statusText body"
    and "\<not> ok status"
  shows "analyzeGithubRepo toLowerCase net repoUrl pat =
     (let errorMessage = js ''GitHub API error: '' @ numToString status @ js '' '' @ statusText
      in if includes_js errorMessage (js ''404'') then Inl RepositoryNotFoundOrAccessDenied
         else if includes_js errorMessage (js ''401'') \<or> includes_js errorMessage (js ''403'')
              then Inl AuthenticationRequired
         else Inl (Error errorMessage))"
  using assms by (simp add: analyzeGithubRepo_def fetchGithubRepoContents_def Let_def)

text \<open>
  C5, as the code has it. When the tree listing answers with a non-success status,
  \<open>analyzeGithubRepo\<close> throws, so no FileRecord is produced, and the error is chosen by
  searching the message \<open>GitHub API error: <status> <statusText>\<close> for the three codes:
  the status 404 gives \<open>RepositoryNotFoundOrAccessDenied\<close>; the statuses 401 and 403
  give \<open>AuthenticationRequired\<close>, unless the status text contains \<open>404\<close>; any other
  three-digit status gives the generic error whose message carries the status, when the
  status text contains none of \<open>404\<close>, \<open>401\<close>, \<open>403\<close>.
\<close>

theorem listing_failure_classified:
  assumes "matchRepoUrl repoUrl = Some (owner, repo)"
    and "fetchTree net (treeUrlOf owner (replace repo (js ''.git'') [])) (authorization pat) =
           Response status statusText body"
    and "\<not> ok status"
  shows "(\<exists>e. analyzeGithubRepo toLowerCase net repoUrl pat = Inl e) \<and>
         (status = 404 \<longrightarrow> analyzeGithubRepo toLowerCase net repoUrl pat = Inl RepositoryNotFoundOrAccessDenied) \<and>
         ((status = 401 \<or> status = 403) \<and> \<not> includes_js statusText (js ''404'') \<longrightarrow>
            analyzeGithubRepo toLowerCase net repoUrl pat = Inl AuthenticationRequired) \<and>
         (100 \<le> status \<and> status < 1000 \<and> status \<noteq> 404 \<and> status \<noteq> 401 \<and> status \<noteq> 403 \<and>
          \<not> includes_js statusText (js ''404'') \<and> \<not> includes_js statusText (js ''401'') \<and>
          \<not> includes_js statusText (js ''403'') \<longrightarrow>
            analyzeGithubRepo toLowerCase net repoUrl pat =
              Inl (Error (js ''GitHub API error: '' @ numToString status @ js '' '' @ statusText)))"
proof (intro conjI impI)
  note a = analyzeGithubRepo_listing_failure[OF assms]
  show "\<exists>e. analyzeGithubRepo toLowerCase net repoUrl pat = Inl e"
    unfolding a by (simp add: Let_def)
  show "analyzeGithubRepo toLowerCase net repoUrl pat = Inl RepositoryNotFoundOrAccessDenied" if "status = 404"
    unfolding a using that by (simp add: Let_def message_404 numToString_codes includes_js_self)
  show "analyzeGithubRepo toLowerCase net repoUrl pat = Inl AuthenticationRequired"
    if "(status = 401 \<or> status = 403) \<and> \<not> includes_js statusText (js ''404'')"
  proof -
    have "\<not> includes_js (numToString status) (js ''404'')"
      using that numToString_not_code(1)[of status] by auto
    moreover have "includes_js (numToString status) (js ''401'') \<or>
                   includes_js (numToString status) (js ''403'')"
      using that by (auto simp: numToString_codes includes_js_self)
    ultimately show ?thesis
      unfolding a using that by (auto simp: Let_def message_404 message_401 message_403)
  qed
  show "analyzeGithubRepo toLowerCase net repoUrl pat =
          Inl (Error (js ''GitHub API error: '' @ numToString status @ js '' '' @ statusText))"
    if "100 \<le> status \<and> status < 1000 \<and> status \<noteq> 404 \<and> status \<noteq> 401 \<and> status \<noteq> 403 \<and>
        \<not> includes_js statusText (js ''404'') \<and> \<not> includes_js statusText (js ''401'') \<and>
        \<not> includes_js statusText (js ''403'')"
    unfolding a using that numToString_not_code[of status]
    by (simp add: Let_def message_404 message_401 message_403)
qed

text \<open>
  C5 as stated fails for the status 403 (forbidden): the error is
  \<open>AuthenticationRequired\<close>, not \<open>RepositoryNotFoundOrAccessDenied\<close>.
\<close>

theorem listing_failure_classified_counterexample:
  "\<not> ok 403 \<and>
   analyzeGithubRepo lowerLatin1 (scriptedNetwork (Response 403 (js ''Forbidden'') (Inl (Error []))) (NetworkError (Error [])))
     (js ''https://github.com/o/r'') None = Inl AuthenticationRequired \<and>
   AuthenticationRequired \<noteq> RepositoryNotFoundOrAccessDenied"
proof -
  have f: "fetchTree (scriptedNetwork (Response 403 (js ''Forbidden'') (Inl (Error []))) (NetworkError (Error [])))
             (treeUrlOf (js ''o'') (replace (js ''r'') (js ''.git'') [])) (authorization None) =
           Response 403 (js ''Forbidden'') (Inl (Error []))"
    by (simp add: scriptedNetwork_def)
  have n: "\<not> ok 403" by (simp add: ok_def)
  have m: "\<not> includes_js (js ''GitHub API error: '' @ numToString 403 @ js '' '' @ js ''Forbidden'') (js ''404'')"
    by (simp add: numToString_codes) (simp add: js_def)
  have m': "includes_js (js ''GitHub API error: '' @ numToString 403 @ js '' '' @ js ''Forbidden'') (js ''403'')"
    by (simp add: message_403 numToString_codes includes_js_self)
  have d: "AuthenticationRequired \<noteq> RepositoryNotFoundOrAccessDenied"
    by (simp add: AuthenticationRequired_def RepositoryNotFoundOrAccessDenied_def js_def)
  show ?thesis
    using n d m m' by (simp add: analyzeGithubRepo_listing_failure[OF example_url f n] Let_def)
qed


theorem listing_failure_classified_witness:
  "analyzeGithubRepo lowerLatin1 (scriptedNetwork (Response 404 (js ''Not Found'') (Inl (Error []))) (NetworkError (Error [])))
     (js ''https://github.com/o/r'') None = Inl RepositoryNotFoundOrAccessDenied \<and>
   analyzeGithubRepo lowerLatin1 (scriptedNetwork (Response 401 (js ''Unauthorized'') (Inl (Error []))) (NetworkError (Error [])))
     (js ''https://github.com/o/r'') None = Inl AuthenticationRequired \<and>
   analyzeGithubRepo lowerLatin1 (scriptedNetwork (Response 500 (js ''Internal Server Error'') (Inl (Error []))) (NetworkError (Error [])))
     (js ''https://github.com/o/r'') None =
     Inl (Error (js ''GitHub API error: '' @ numToString 500 @ js '' '' @ js ''Internal Server Error''))"
proof -
  have f: "\<And>st txt. fetchTree (scriptedNetwork (Response st txt (Inl (Error []))) (NetworkError (Error [])))
             (treeUrlOf (js ''o'') (replace (js ''r'') (js ''.git'') [])) (authorization None) =
           Response st txt (Inl (Error []))"
    by (simp add: scriptedNetwork_def)
  have n: "\<not> ok 404" "\<not> ok 401" "\<not> ok 500" by (simp_all add: ok_def)
  have t1: "\<not> includes_js (js ''Unauthorized'') (js ''404'')" by (simp add: js_def)
  have t2: "\<not> includes_js (js ''Internal Server Error'') (js ''404'')"
    "\<not> includes_js (js ''Internal Server Error'') (js ''401'')"
    "\<not> includes_js (js ''Internal Server Error'') (js ''403'')"
    by (simp_all add: js_def)
  show ?thesis
    using listing_failure_classified[OF example_url f n(1)]
      listing_failure_classified[OF example_url f n(2)]
      listing_failure_classified[OF example_url f n(3)] t1 t2
    by simp
qed

section \<open>Truncation and binary detection on the two ingestion paths\<close>

lemma truncationMarker_length: "length truncationMarker = 16"
  by (simp add: truncationMarker_def js_def)

lemma readFileContent_length:
  "readFileContent rd = Some text \<Longrightarrow> length text \<le> 50000 + length truncationMarker"
  by (auto simp: readFileContent_def split: sum.splits if_splits)

lemma fetchGithubFileContent_Some:
  assumes "fetchGithubFileContent net owner repo sha pat = Some text"
  obtains status statusText data where
    "fetchBlob net (contentUrlOf owner repo sha) (authorization pat) = Response status statusText (Some data)"
    "ok status" "encoding data = js ''base64''" "\<not> isBinaryContent (decoded data)"
    "text = (if length (decoded data) > 50000 then take 50000 (decoded data) @ truncationMarker
             else decoded data)"
  using assms
  by (auto simp: fetchGithubFileContent_def Let_def split: fetched.splits option.splits if_splits)

lemma fetchGithubFileContent_length:
  assumes "fetchGithubFileContent net owner repo sha pat = Some text"
  shows "length text \<le> 50000 + length truncationMarker"
  using assms by (elim fetchGithubFileContent_Some) (auto split: if_splits)

text \<open>
  The post-processing of the two paths agrees on every decoded text that is at most
  50,000 code units long or that is not classified as binary.
\<close>

lemma paths_agree:
  assumes "fetchBlob net (contentUrlOf owner repo sha) (authorization pat) =
             Response status statusText (Some \<lparr> encoding = js ''base64'', decoded = text \<rparr>)"
    and "ok status"
    and "length text \<le> 50000 \<or> \<not> isBinaryContent text"
  shows "fetchGithubFileContent net owner repo sha pat = readFileContent (Inr text)"
  using assms by (auto simp: fetchGithubFileContent_def readFileContent_def Let_def)

lemma nul_binary: "isBinaryContent (replicate 50001 0)"
  by (simp add: isBinaryContent_def isControl_def Let_def)

lemma big_txt_included: "shouldIncludeFile lowerLatin1 (js ''big.txt'') 50001"
  by (simp add: shouldIncludeFile_def Let_def extname_def basename_def js_def dot_def slash_def
      lowerLatin1_def lowerChar_def supportedExtensions_def)

lemma big_txt_not_skipped: "\<not> shouldSkipPath (js ''big.txt'')"
  by (simp add: shouldSkipPath_def skipPatterns_def js_def)

lemma big_txt_language: "detectLanguage lowerLatin1 (js ''big.txt'') = js ''unknown''"
  by (simp add: detectLanguage_def languageMap_def extname_def basename_def js_def dot_def
      slash_def lowerLatin1_def lowerChar_def)

text \<open>
  C1 at a local file \<open>big.txt\<close> of 50,001 NUL characters. The text is classified as
  binary, but \<open>readFileContent\<close> tests the length first and returns the truncated text
  without reaching the binary test; the walk builds a FileRecord from it, whose content
  is itself classified as binary. (The bound on the length holds on both paths, see
  \<open>readFileContent_length\<close> and \<open>fetchGithubFileContent_length\<close>, and the remote path
  never returns a text classified as binary, see \<open>fetchGithubFileContent_Some\<close>.)
\<close>

theorem local_path_keeps_long_binary:
  "isBinaryContent (replicate 50001 0) \<and>
   readFileContent (Inr (replicate 50001 0)) = Some (replicate 50000 0 @ truncationMarker) \<and>
   isBinaryContent (replicate 50000 0 @ truncationMarker) \<and>
   walkDirectory lowerLatin1 [] (Dir [(js ''big.txt'', File 50001 (Inr (replicate 50001 0)))]) [] 0 =
     [\<lparr> path = js ''big.txt'', content = replicate 50000 0 @ truncationMarker,
        language = js ''unknown'', size_f = 50001 \<rparr>]"
proof -
  have r: "readFileContent (Inr (replicate 50001 0)) = Some (replicate 50000 0 @ truncationMarker)"
    by (simp add: readFileContent_def)
  have b: "isBinaryContent (replicate 50000 0 @ truncationMarker)"
    by (simp add: isBinaryContent_def Let_def truncationMarker_length) (simp add: isControl_def)
  have w: "walkDirectory lowerLatin1 [] (Dir [(js ''big.txt'', File 50001 (Inr (replicate 50001 0)))]) [] 0 =
     [\<lparr> path = js ''big.txt'', content = replicate 50000 0 @ truncationMarker,
        language = js ''unknown'', size_f = 50001 \<rparr>]"
    by (simp add: relativeOf_def big_txt_included big_txt_not_skipped big_txt_language r)
  show ?thesis using nul_binary r b w by simp
qed

text \<open>
  C2 at the same text of 50,001 NUL characters: the remote path drops it as binary, the
  local path returns its first 50,000 characters with the truncation marker. (On every
  other text the two paths agree, see \<open>paths_agree\<close>.)
\<close>

theorem paths_differ_on_long_binary:
  "fetchGithubFileContent
     (scriptedNetwork (NetworkError (Error []))
        (Response 200 (js ''OK'') (Some \<lparr> encoding = js ''base64'', decoded = replicate 50001 0 \<rparr>)))
     (js ''o'') (js ''r'') (js ''abc'') None = None \<and>
   readFileContent (Inr (replicate 50001 0)) = Some (replicate 50000 0 @ truncationMarker)"
  by (simp add: fetchGithubFileContent_def scriptedNetwork_def ok_def Let_def nul_binary
      readFileContent_def)


end
